theory Spec2Isabelle
  imports Main "HOL-Library.Sublist"
begin

section \<open>The UKI builder of go-ukify (package uki)\<close>

text \<open>
  A shallow embedding of \<^verbatim>\<open>Builder.Build\<close> and of the nine section generators of
  \<^verbatim>\<open>pkg/uki/generate.go\<close>. A Go method on \<^verbatim>\<open>*Builder\<close> becomes a function from
  the builder and the world to an outcome, the updated builder and the updated world: the
  receiver is a pointer, so every assignment to a field survives an error return.
  Code of other packages (pesign, measure, constants, the assembler, the kernel version
  prober) is not part of the two files; it is taken as a parameter, the record \<open>env\<close>.
\<close>

subsection \<open>Data\<close>

text \<open>
  \<^verbatim>\<open>constants.Section\<close>: the nine section identifiers the generators use. Their
  declaration is in pkg/constants; they are pairwise different names.
\<close>

datatype Section =
  constants_OSRel | constants_CMDLine | constants_Initrd | constants_Splash
  | constants_Uname | constants_SBAT | constants_PCRPKey | constants_Linux
  | constants_PCRSig

text \<open>
  \<^verbatim>\<open>types.UkiSection\<close>, with the four fields the generators set. A field that a
  composite literal leaves out has Go's zero value (\<open>False\<close>).
\<close>

record UkiSection =
  Name :: Section
  Path :: string
  Measure :: bool
  Append :: bool

text \<open>
  Go's \<^verbatim>\<open>error\<close> values: \<^verbatim>\<open>errors.New(msg)\<close>, \<^verbatim>\<open>fmt.Errorf("msg: %w", err)\<close>, and
  the errors that other packages and the operating system return.
\<close>

datatype error =
  errors_New string
  | fmt_Errorf string error
  | external_error string

text \<open>
  A call either returns an \<^verbatim>\<open>error\<close> (\<open>None\<close> is \<^verbatim>\<open>nil\<close>) or panics (a method
  called on a nil interface or through a nil pointer).
\<close>

datatype outcome = Return "error option" | Panic

datatype rsa_key = RSAKey nat

datatype certificate_signer = CertificateSigner nat

datatype pe_signer = PESigner nat

datatype pcr_data = PCRData string

datatype logger = slog_Default | other_Logger nat

datatype Level = LevelDebug | LevelInfo | LevelWarn | LevelError

record builder =
  Arch :: string
  Version :: string
  SdStubPath :: string
  SdBootPath :: string
  KernelPath :: string
  InitrdPath :: string
  Cmdline :: string
  OsRelease :: string
  SecureBootSigner :: "certificate_signer option"
  SBKey :: string
  SBCert :: string
  PCRSigner :: "rsa_key option"
  PCRKey :: string
  Splash :: string
  OutSdBootPath :: string
  OutUKIPath :: string
  Logger :: "logger option"
  LogLevel :: string
  sections :: "UkiSection list"
  scratchDir :: string
  peSigner :: "pe_signer option"
  unsignedUKIPath :: string

subsection \<open>The world: file system, process-wide log level, calls made\<close>

record fsys =
  files :: "string \<Rightarrow> string option"
  dirs :: "string set"

text \<open>
  The calls that leave the package are recorded in order: log lines (logger, level,
  message; the attributes are left out), the scratch directory's creation and removal,
  and the calls to the PE signer, the measurement engine and the assembler with the
  arguments the claims are about.
\<close>

datatype event =
  Log_event logger Level string
  | Printf_event string
  | MkdirTemp_event
  | RemoveAll_event string
  | NewSigner_event "certificate_signer option"
  | Sign_event "pe_signer option" string string
  | GenerateSignedPCR_event "Section \<Rightarrow> string option" "rsa_key option"
  | PrintSystemdMeasurements_event
  | assemble_event

record world =
  fs :: fsys
  slog_level :: Level
  trace :: "event list"

text \<open>
  What the two files call and do not define. A function that reads files takes the file
  system; one that writes files returns the new one. \<open>WriteFile_fault\<close>,
  \<open>ReadFile_fault\<close> and \<open>RemoveAll_fault\<close> say when the operating system refuses the
  operation; \<open>MkdirTemp_result\<close> is the fresh name it picks, or its error.
  \<open>Signer_Sign\<close> takes its receiver as an option: \<^verbatim>\<open>builder.peSigner\<close> is a pointer
  and may be nil, and what the method does then is for pesign to say.
\<close>

record env =
  constants_Name :: string
  constants_UKIPCR :: int
  constants_PEMTypeRSAPublic :: string
  common_Logo :: string
  constants_OSReleaseFor :: "string \<Rightarrow> string \<Rightarrow> error + string"
  pesign_NewPCRSigner :: "fsys \<Rightarrow> string \<Rightarrow> error + rsa_key"
  pesign_NewSecureBootSigner :: "fsys \<Rightarrow> string \<Rightarrow> string \<Rightarrow> error + certificate_signer"
  pesign_NewSigner :: "certificate_signer option \<Rightarrow> error + pe_signer"
  Signer_Sign :: "pe_signer option \<Rightarrow> string \<Rightarrow> string \<Rightarrow> fsys \<Rightarrow> outcome \<times> fsys"
  DiscoverKernelVersion :: "fsys \<Rightarrow> string \<Rightarrow> string \<times> error option"
  GetSBAT :: "fsys \<Rightarrow> string \<Rightarrow> error + string"
  x509_MarshalPKIXPublicKey :: "rsa_key \<Rightarrow> error + string"
  pem_EncodeToMemory :: "string \<Rightarrow> string \<Rightarrow> string"
  measure_GenerateSignedPCR ::
    "fsys \<Rightarrow> (Section \<Rightarrow> string option) \<Rightarrow> rsa_key option \<Rightarrow> int \<Rightarrow> error + pcr_data"
  json_Marshal :: "pcr_data \<Rightarrow> error + string"
  assemble_result ::
    "string \<Rightarrow> UkiSection list \<Rightarrow> string \<Rightarrow> fsys \<Rightarrow> (error + string) \<times> fsys"
  MkdirTemp_result :: "fsys \<Rightarrow> error + string"
  WriteFile_fault :: "fsys \<Rightarrow> string \<Rightarrow> error option"
  ReadFile_fault :: "fsys \<Rightarrow> string \<Rightarrow> error option"
  RemoveAll_fault :: "fsys \<Rightarrow> string \<Rightarrow> error option"

type_synonym step = "builder \<Rightarrow> world \<Rightarrow> outcome \<times> builder \<times> world"

subsection \<open>Library calls\<close>

definition emit :: "event \<Rightarrow> world \<Rightarrow> world" where
  "emit e w = w\<lparr>trace := trace w @ [e]\<rparr>"

text \<open>
  \<^verbatim>\<open>builder.Logger.Debug(...)\<close>, \<^verbatim>\<open>builder.Logger.Info(...)\<close>: a method of
  \<^verbatim>\<open>*slog.Logger\<close>; through a nil pointer it panics (\<open>None\<close>).
\<close>

definition Logger_log :: "builder \<Rightarrow> Level \<Rightarrow> string \<Rightarrow> world \<Rightarrow> world option" where
  "Logger_log b lvl msg w =
     (case Logger b of
        None \<Rightarrow> None
      | Some l \<Rightarrow> Some (emit (Log_event l lvl msg) w))"

text \<open>\<^verbatim>\<open>slog.Info(...)\<close>: the package-level function logs to the default logger.\<close>

definition slog_Info :: "string \<Rightarrow> world \<Rightarrow> world" where
  "slog_Info msg w = emit (Log_event slog_Default LevelInfo msg) w"

text \<open>
  \<^verbatim>\<open>strings.ToLower\<close> on the bytes of the string: an ASCII capital becomes its small
  letter, every other byte stays (a non-ASCII letter never becomes one of the ASCII letters
  of "debug", "warn" and "error").
\<close>

definition ToLower_char :: "char \<Rightarrow> char" where
  "ToLower_char c =
     (if (65::nat) \<le> of_char c \<and> of_char c \<le> (90::nat)
      then char_of (of_char c + (32::nat)) else c)"

definition strings_ToLower :: "string \<Rightarrow> string" where
  "strings_ToLower s = map ToLower_char s"

text \<open>
  \<^verbatim>\<open>filepath.Join(dir, name)\<close> for a clean directory path, as \<^verbatim>\<open>os.MkdirTemp\<close>
  returns it, and a plain file name.
\<close>

definition filepath_Join :: "string \<Rightarrow> string \<Rightarrow> string" where
  "filepath_Join dir name = (if dir = [] then name else dir @ ''/'' @ name)"

text \<open>
  \<^verbatim>\<open>os.WriteFile(name, data, 0o600)\<close>: the file then holds exactly \<open>data\<close>, or the
  call fails and the file system is as before.
\<close>

definition os_WriteFile :: "env \<Rightarrow> string \<Rightarrow> string \<Rightarrow> world \<Rightarrow> error option \<times> world" where
  "os_WriteFile E name data w =
     (case WriteFile_fault E (fs w) name of
        Some err \<Rightarrow> (Some err, w)
      | None \<Rightarrow> (None, w\<lparr>fs := (fs w)\<lparr>files := (files (fs w))(name \<mapsto> data)\<rparr>\<rparr>))"

text \<open>
  \<^verbatim>\<open>os.ReadFile(name)\<close>: the content, or an error when the file is not there or cannot
  be opened; with the error the data returned is nil.
\<close>

definition os_ReadFile :: "env \<Rightarrow> string \<Rightarrow> world \<Rightarrow> error + string" where
  "os_ReadFile E name w =
     (case ReadFile_fault E (fs w) name of
        Some err \<Rightarrow> Inl err
      | None \<Rightarrow>
          (case files (fs w) name of
             None \<Rightarrow> Inl (external_error ''no such file or directory'')
           | Some data \<Rightarrow> Inr data))"

text \<open>\<^verbatim>\<open>os.MkdirTemp("", "ukify")\<close>: a new directory, or an error and the empty name.\<close>

definition os_MkdirTemp :: "env \<Rightarrow> world \<Rightarrow> (error + string) \<times> world" where
  "os_MkdirTemp E w =
     (case MkdirTemp_result E (fs w) of
        Inl err \<Rightarrow> (Inl err, emit MkdirTemp_event w)
      | Inr d \<Rightarrow>
          (Inr d, emit MkdirTemp_event (w\<lparr>fs := (fs w)\<lparr>dirs := insert d (dirs (fs w))\<rparr>\<rparr>)))"

definition under :: "string \<Rightarrow> string \<Rightarrow> bool" where
  "under dir p = (p = dir \<or> prefix (dir @ ''/'') p)"

text \<open>
  \<^verbatim>\<open>os.RemoveAll(path)\<close>: the path and everything below it is gone, or the call fails
  (the file system is then taken as unchanged).
\<close>

definition os_RemoveAll :: "env \<Rightarrow> string \<Rightarrow> world \<Rightarrow> error option \<times> world" where
  "os_RemoveAll E path w =
     (case RemoveAll_fault E (fs w) path of
        Some err \<Rightarrow> (Some err, emit (RemoveAll_event path) w)
      | None \<Rightarrow>
          (None, emit (RemoveAll_event path)
             (w\<lparr>fs := \<lparr>files = (\<lambda>p. if under path p then None else files (fs w) p),
                       dirs = {d \<in> dirs (fs w). \<not> under path d}\<rparr>\<rparr>)))"

text \<open>
  \<^verbatim>\<open>xslices.Filter\<close> is \<open>filter\<close>. \<^verbatim>\<open>xslices.ToMap(slc, fn)\<close> fills a Go map in the
  order of the slice, so a later element overwrites an earlier one with the same key.
\<close>

definition xslices_ToMap :: "'a list \<Rightarrow> ('a \<Rightarrow> 'k \<times> 'v) \<Rightarrow> ('k \<Rightarrow> 'v option)" where
  "xslices_ToMap slc fn = foldl (\<lambda>m x. m(fst (fn x) \<mapsto> snd (fn x))) Map.empty slc"

text \<open>\<^verbatim>\<open>builder.sections = append(builder.sections, s)\<close>\<close>

definition append_section :: "UkiSection \<Rightarrow> builder \<Rightarrow> builder" where
  "append_section s b = b\<lparr>sections := sections b @ [s]\<rparr>"

text \<open>\<^verbatim>\<open>builder.peSigner.Sign(input, output, builder.Logger)\<close>\<close>

definition peSigner_Sign :: "env \<Rightarrow> builder \<Rightarrow> string \<Rightarrow> string \<Rightarrow> world \<Rightarrow> outcome \<times> world" where
  "peSigner_Sign E b input output w =
     (case Signer_Sign E (peSigner b) input output (fs w) of
        (r, f) \<Rightarrow> (r, (emit (Sign_event (peSigner b) input output) w)\<lparr>fs := f\<rparr>))"

subsection \<open>The section generators (pkg/uki/generate.go)\<close>

definition generateOSRel :: "env \<Rightarrow> step" where
  "generateOSRel E b w =
     (if OsRelease b \<noteq> [] then
        (case Logger_log b LevelDebug ''Using existing os-release'' w of
           None \<Rightarrow> (Panic, b, w)
         | Some w1 \<Rightarrow>
             (Return None,
              append_section \<lparr>Name = constants_OSRel, Path = OsRelease b,
                              Measure = True, Append = True\<rparr> b, w1))
      else
        (case Logger_log b LevelDebug ''Generating a new os-release'' w of
           None \<Rightarrow> (Panic, b, w)
         | Some w1 \<Rightarrow>
             (case constants_OSReleaseFor E (constants_Name E) (Version b) of
                Inl err \<Rightarrow> (Return (Some err), b, w1)
              | Inr osRelease \<Rightarrow>
                  (case os_WriteFile E (filepath_Join (scratchDir b) ''os-release'') osRelease w1 of
                     (Some err, w2) \<Rightarrow> (Return (Some err), b, w2)
                   | (None, w2) \<Rightarrow>
                       (Return None,
                        append_section
                          \<lparr>Name = constants_OSRel,
                           Path = filepath_Join (scratchDir b) ''os-release'',
                           Measure = True, Append = True\<rparr> b, w2)))))"

definition generateCmdline :: "env \<Rightarrow> step" where
  "generateCmdline E b w =
     (case Logger_log b LevelDebug ''Using cmdline'' w of
        None \<Rightarrow> (Panic, b, w)
      | Some w1 \<Rightarrow>
          (case os_WriteFile E (filepath_Join (scratchDir b) ''cmdline'') (Cmdline b) w1 of
             (Some err, w2) \<Rightarrow> (Return (Some err), b, w2)
           | (None, w2) \<Rightarrow>
               (Return None,
                append_section
                  \<lparr>Name = constants_CMDLine,
                   Path = filepath_Join (scratchDir b) ''cmdline'',
                   Measure = True, Append = True\<rparr> b, w2)))"

definition generateInitrd :: "env \<Rightarrow> step" where
  "generateInitrd E b w =
     (case Logger_log b LevelDebug ''Using initrd'' w of
        None \<Rightarrow> (Panic, b, w)
      | Some w1 \<Rightarrow>
          (Return None,
           append_section \<lparr>Name = constants_Initrd, Path = InitrdPath b,
                           Measure = True, Append = True\<rparr> b, w1))"

text \<open>
  \<^verbatim>\<open>data, _ = os.ReadFile(builder.Splash)\<close>: the error is assigned to the blank
  identifier, and \<open>data\<close> is what the call returned with it (nil).
\<close>

definition splash_data :: "env \<Rightarrow> builder \<Rightarrow> world \<Rightarrow> (string \<times> world) option" where
  "splash_data E b w =
     (if Splash b \<noteq> [] then
        (case Logger_log b LevelDebug ''Using splash'' w of
           None \<Rightarrow> None
         | Some w1 \<Rightarrow>
             Some (case os_ReadFile E (Splash b) w1 of Inl err \<Rightarrow> [] | Inr data \<Rightarrow> data, w1))
      else
        (case Logger_log b LevelDebug ''Using generic bundled splash'' w of
           None \<Rightarrow> None
         | Some w1 \<Rightarrow> Some (common_Logo E, w1)))"

definition generateSplash :: "env \<Rightarrow> step" where
  "generateSplash E b w =
     (case splash_data E b w of
        None \<Rightarrow> (Panic, b, w)
      | Some (data, w1) \<Rightarrow>
          (case os_WriteFile E (filepath_Join (scratchDir b) ''splash.bmp'') data w1 of
             (Some err, w2) \<Rightarrow> (Return (Some err), b, w2)
           | (None, w2) \<Rightarrow>
               (Return None,
                append_section
                  \<lparr>Name = constants_Splash,
                   Path = filepath_Join (scratchDir b) ''splash.bmp'',
                   Measure = True, Append = True\<rparr> b, w2)))"

definition generateUname :: "env \<Rightarrow> step" where
  "generateUname E b w =
     (case DiscoverKernelVersion E (fs w) (KernelPath b) of
        (kernelVersion, _) \<Rightarrow>
          (if kernelVersion = [] then
             (case Logger_log b LevelInfo ''We could not infer kernel version'' w of
                None \<Rightarrow> (Panic, b, w)
              | Some w1 \<Rightarrow> (Return None, b, w1))
           else
             (case Logger_log b LevelDebug ''Getting uname'' w of
                None \<Rightarrow> (Panic, b, w)
              | Some w1 \<Rightarrow>
                  (case os_WriteFile E (filepath_Join (scratchDir b) ''uname'') kernelVersion w1 of
                     (Some err, w2) \<Rightarrow> (Return (Some err), b, w2)
                   | (None, w2) \<Rightarrow>
                       (Return None,
                        append_section
                          \<lparr>Name = constants_Uname,
                           Path = filepath_Join (scratchDir b) ''uname'',
                           Measure = True, Append = True\<rparr> b, w2)))))"

definition generateSBAT :: "env \<Rightarrow> step" where
  "generateSBAT E b w =
     (case Logger_log b LevelDebug ''Getting SBAT'' w of
        None \<Rightarrow> (Panic, b, w)
      | Some w1 \<Rightarrow>
          (case GetSBAT E (fs w1) (SdStubPath b) of
             Inl err \<Rightarrow> (Return (Some err), b, w1)
           | Inr sbat \<Rightarrow>
               (case Logger_log b LevelDebug ''Generated SBAT'' w1 of
                  None \<Rightarrow> (Panic, b, w1)
                | Some w2 \<Rightarrow>
                    (case os_WriteFile E (filepath_Join (scratchDir b) ''sbat'') sbat w2 of
                       (Some err, w3) \<Rightarrow> (Return (Some err), b, w3)
                     | (None, w3) \<Rightarrow>
                         (Return None,
                          append_section
                            \<lparr>Name = constants_SBAT,
                             Path = filepath_Join (scratchDir b) ''sbat'',
                             Measure = True, Append = False\<rparr> b, w3)))))"

text \<open>
  \<^verbatim>\<open>builder.PCRSigner.PublicRSAKey()\<close> is a method call on an interface value: on
  nil it panics.
\<close>

definition generatePCRPublicKey :: "env \<Rightarrow> step" where
  "generatePCRPublicKey E b w =
     (case Logger_log b LevelDebug ''Getting Public PCR key'' w of
        None \<Rightarrow> (Panic, b, w)
      | Some w1 \<Rightarrow>
          (case PCRSigner b of
             None \<Rightarrow> (Panic, b, w1)
           | Some signer \<Rightarrow>
               (case x509_MarshalPKIXPublicKey E signer of
                  Inl err \<Rightarrow> (Return (Some err), b, w1)
                | Inr publicKeyBytes \<Rightarrow>
                    (case os_WriteFile E (filepath_Join (scratchDir b) ''pcr-public.pem'')
                            (pem_EncodeToMemory E (constants_PEMTypeRSAPublic E) publicKeyBytes) w1 of
                       (Some err, w2) \<Rightarrow> (Return (Some err), b, w2)
                     | (None, w2) \<Rightarrow>
                         (Return None,
                          append_section
                            \<lparr>Name = constants_PCRPKey,
                             Path = filepath_Join (scratchDir b) ''pcr-public.pem'',
                             Measure = True, Append = True\<rparr> b, w2)))))"

definition generateKernel :: "env \<Rightarrow> step" where
  "generateKernel E b w =
     (case Logger_log b LevelDebug ''Getting kernel'' w of
        None \<Rightarrow> (Panic, b, w)
      | Some w1 \<Rightarrow>
          (Return None,
           append_section \<lparr>Name = constants_Linux, Path = KernelPath b,
                           Measure = True, Append = True\<rparr> b, w1))"

text \<open>The mapping handed to the measurement engine (generate.go, lines 225 to 233).\<close>

definition sectionsData :: "UkiSection list \<Rightarrow> (Section \<Rightarrow> string option)" where
  "sectionsData secs = xslices_ToMap (filter (\<lambda>s. Measure s) secs) (\<lambda>s. (Name s, Path s))"

text \<open>
  \<^verbatim>\<open>measure.GenerateSignedPCR(sectionsData, builder.PCRSigner, constants.UKIPCR, ...)\<close>,
  recorded with the mapping it is given.
\<close>

definition GenerateSignedPCR_call ::
  "env \<Rightarrow> (Section \<Rightarrow> string option) \<Rightarrow> rsa_key option \<Rightarrow> world \<Rightarrow> (error + pcr_data) \<times> world" where
  "GenerateSignedPCR_call E m signer w =
     (measure_GenerateSignedPCR E (fs w) m signer (constants_UKIPCR E),
      emit (GenerateSignedPCR_event m signer) w)"

text \<open>The diagnostic print of lines 240 to 242: \<^verbatim>\<open>builder.LogLevel == "debug"\<close>.\<close>

definition debug_print :: "builder \<Rightarrow> world \<Rightarrow> world" where
  "debug_print b w = (if LogLevel b = ''debug'' then emit PrintSystemdMeasurements_event w else w)"

definition generatePCRSig :: "env \<Rightarrow> step" where
  "generatePCRSig E b w =
     (case Logger_log b LevelInfo ''Generating PCR measurements and signed policy'' w of
        None \<Rightarrow> (Panic, b, w)
      | Some w1 \<Rightarrow>
          (case Logger_log b LevelDebug ''Using PCR slot'' w1 of
             None \<Rightarrow> (Panic, b, w1)
           | Some w2 \<Rightarrow>
               (case GenerateSignedPCR_call E (sectionsData (sections b)) (PCRSigner b) w2 of
                  (Inl err, w3) \<Rightarrow> (Return (Some err), b, w3)
                | (Inr pcrData, w3) \<Rightarrow>
                    (case json_Marshal E pcrData of
                       Inl err \<Rightarrow> (Return (Some err), b, debug_print b w3)
                     | Inr pcrSignatureData \<Rightarrow>
                         (case os_WriteFile E (filepath_Join (scratchDir b) ''pcrpsig'')
                                 pcrSignatureData (debug_print b w3) of
                            (Some err, w4) \<Rightarrow> (Return (Some err), b, w4)
                          | (None, w4) \<Rightarrow>
                              (Return None,
                               append_section
                                 \<lparr>Name = constants_PCRSig,
                                  Path = filepath_Join (scratchDir b) ''pcrpsig'',
                                  Measure = False, Append = True\<rparr> b, w4))))))"

subsection \<open>Build (lines 79 to 187)\<close>

text \<open>Lines 82 to 94: the logger's default and the process-wide log level.\<close>

definition level_of :: "string \<Rightarrow> Level" where
  "level_of s =
     (if strings_ToLower s = ''debug'' then LevelDebug
      else if strings_ToLower s = ''warn'' then LevelWarn
      else if strings_ToLower s = ''error'' then LevelError
      else LevelInfo)"

definition configure_logging :: "builder \<Rightarrow> world \<Rightarrow> builder \<times> world" where
  "configure_logging b w =
     ((if Logger b = None then b\<lparr>Logger := Some slog_Default\<rparr> else b),
      w\<lparr>slog_level := level_of (LogLevel b)\<rparr>)"

text \<open>Lines 96 to 106.\<close>

definition resolve_PCRSigner :: "env \<Rightarrow> builder \<Rightarrow> world \<Rightarrow> error + builder" where
  "resolve_PCRSigner E b w =
     (if PCRSigner b = None then
        (if PCRKey b = [] then Inl (errors_New ''no PCR signer or PCRKey available'')
         else
           (case pesign_NewPCRSigner E (fs w) (PCRKey b) of
              Inl err \<Rightarrow> Inl err
            | Inr signer \<Rightarrow> Inr (b\<lparr>PCRSigner := Some signer\<rparr>)))
      else Inr b)"

text \<open>Lines 108 to 118.\<close>

definition resolve_SecureBootSigner :: "env \<Rightarrow> builder \<Rightarrow> world \<Rightarrow> error + builder" where
  "resolve_SecureBootSigner E b w =
     (if SecureBootSigner b = None then
        (if SBCert b = [] \<or> SBKey b = [] then
           Inl (errors_New ''no Secureboot signer or combination of SB key+cert to sign'')
         else
           (case pesign_NewSecureBootSigner E (fs w) (SBCert b) (SBKey b) of
              Inl err \<Rightarrow> Inl err
            | Inr sbSigner \<Rightarrow> Inr (b\<lparr>SecureBootSigner := Some sbSigner\<rparr>)))
      else Inr b)"

text \<open>
  Lines 82 to 123, up to the creation of the scratch directory: \<open>Inl\<close> is a return from
  \<^verbatim>\<open>Build\<close> before the deferred removal is registered, \<open>Inr\<close> goes on to line 125.
\<close>

definition Build_setup :: "env \<Rightarrow> builder \<Rightarrow> world \<Rightarrow> (outcome \<times> builder \<times> world) + (builder \<times> world)" where
  "Build_setup E b w =
     (case configure_logging b w of
        (b1, w1) \<Rightarrow>
          (case resolve_PCRSigner E b1 w1 of
             Inl err \<Rightarrow> Inl (Return (Some err), b1, w1)
           | Inr b2 \<Rightarrow>
               (case resolve_SecureBootSigner E b2 w1 of
                  Inl err \<Rightarrow> Inl (Return (Some err), b2, w1)
                | Inr b3 \<Rightarrow>
                    (case os_MkdirTemp E w1 of
                       (Inl err, w2) \<Rightarrow> Inl (Return (Some err), b3\<lparr>scratchDir := []\<rparr>, w2)
                     | (Inr d, w2) \<Rightarrow> Inr (b3\<lparr>scratchDir := d\<rparr>, w2)))))"

text \<open>
  Lines 131 to 146. \<open>Return None\<close> stands for reaching line 148. The signer is
  constructed in the first branch only; with the error \<^verbatim>\<open>pesign.NewSigner\<close> returns a
  nil pointer.
\<close>

definition sign_sd_boot :: "env \<Rightarrow> step" where
  "sign_sd_boot E b w =
     (if SdBootPath b \<noteq> [] then
        (case pesign_NewSigner E (SecureBootSigner b) of
           Inl err \<Rightarrow>
             (Return (Some (fmt_Errorf ''error initializing signer'' err)),
              b\<lparr>peSigner := None\<rparr>,
              emit (NewSigner_event (SecureBootSigner b)) (slog_Info ''Signing systemd-boot'' w))
         | Inr s \<Rightarrow>
             (case peSigner_Sign E (b\<lparr>peSigner := Some s\<rparr>) (SdBootPath b) (OutSdBootPath b)
                     (emit (NewSigner_event (SecureBootSigner b)) (slog_Info ''Signing systemd-boot'' w)) of
                (Return (Some err), w1) \<Rightarrow>
                  (Return (Some (fmt_Errorf ''error signing sd-boot'' err)), b\<lparr>peSigner := Some s\<rparr>, w1)
              | (Panic, w1) \<Rightarrow> (Panic, b\<lparr>peSigner := Some s\<rparr>, w1)
              | (Return None, w1) \<Rightarrow>
                  (Return None, b\<lparr>peSigner := Some s\<rparr>, slog_Info ''Signed systemd-boot'' w1)))
      else
        (case Logger_log b LevelInfo ''Not signing systemd-boot'' w of
           None \<Rightarrow> (Panic, b, w)
         | Some w1 \<Rightarrow> (Return None, b, w1)))"

text \<open>The list of lines 151 to 163.\<close>

definition section_generators :: "env \<Rightarrow> step list" where
  "section_generators E =
     [generateOSRel E, generateCmdline E, generateInitrd E, generateSplash E,
      generateUname E, generateSBAT E, generatePCRPublicKey E,
      generateKernel E, generatePCRSig E]"

text \<open>The loop of lines 151 to 167: the first error ends it, wrapped.\<close>

fun run_generators :: "step list \<Rightarrow> step" where
  "run_generators [] b w = (Return None, b, w)"
| "run_generators (generateSection # rest) b w =
     (case generateSection b w of
        (Return None, b1, w1) \<Rightarrow> run_generators rest b1 w1
      | (Return (Some err), b1, w1) \<Rightarrow>
          (Return (Some (fmt_Errorf ''error generating sections'' err)), b1, w1)
      | (Panic, b1, w1) \<Rightarrow> (Panic, b1, w1))"

text \<open>
  Modelled from the spec: \<^verbatim>\<open>Builder.assemble\<close>, which is not in the two files. The
  spec has the assembler take the boot stub's path and the ordered sections and return the
  path of the unsigned binary or an error; the list it is handed is read-only. \<^verbatim>\<open>Build\<close>
  then signs \<^verbatim>\<open>builder.unsignedUKIPath\<close>, which is taken to be the path returned.
\<close>

definition assemble :: "env \<Rightarrow> step" where
  "assemble E b w =
     (case assemble_result E (SdStubPath b) (sections b) (scratchDir b) (fs w) of
        (Inl err, f) \<Rightarrow> (Return (Some err), b, (emit assemble_event w)\<lparr>fs := f\<rparr>)
      | (Inr p, f) \<Rightarrow> (Return None, b\<lparr>unsignedUKIPath := p\<rparr>, (emit assemble_event w)\<lparr>fs := f\<rparr>))"

text \<open>Runs the second step when the first returned nil, and returns what it returned otherwise.\<close>

definition and_then :: "outcome \<times> builder \<times> world \<Rightarrow> step \<Rightarrow> outcome \<times> builder \<times> world" where
  "and_then r k = (case r of (Return None, b, w) \<Rightarrow> k b w | _ \<Rightarrow> r)"

text \<open>Lines 148 to 167.\<close>

definition generate_sections :: "env \<Rightarrow> step" where
  "generate_sections E b w =
     (case Logger_log b LevelInfo ''Generating UKI sections'' w of
        None \<Rightarrow> (Panic, b, w)
      | Some w1 \<Rightarrow> run_generators (section_generators E) b w1)"

text \<open>Lines 169 to 176.\<close>

definition assemble_UKI :: "env \<Rightarrow> step" where
  "assemble_UKI E b w =
     (case Logger_log b LevelInfo ''Generated UKI sections'' w of
        None \<Rightarrow> (Panic, b, w)
      | Some w1 \<Rightarrow>
          (case Logger_log b LevelInfo ''Assembling UKI'' w1 of
             None \<Rightarrow> (Panic, b, w1)
           | Some w2 \<Rightarrow>
               (case assemble E b w2 of
                  (Return (Some err), b1, w3) \<Rightarrow>
                    (Return (Some (fmt_Errorf ''error assembling UKI'' err)), b1, w3)
                | r \<Rightarrow> r)))"

text \<open>
  Lines 178 to 186: the signature of the assembled file, with \<^verbatim>\<open>builder.peSigner\<close> as
  it is at that point.
\<close>

definition sign_UKI :: "env \<Rightarrow> step" where
  "sign_UKI E b w =
     (case Logger_log b LevelInfo ''Assembled UKI'' w of
        None \<Rightarrow> (Panic, b, w)
      | Some w1 \<Rightarrow>
          (case Logger_log b LevelInfo ''Signing UKI'' w1 of
             None \<Rightarrow> (Panic, b, w1)
           | Some w2 \<Rightarrow>
               (case peSigner_Sign E b (unsignedUKIPath b) (OutUKIPath b) w2 of
                  (Return None, w3) \<Rightarrow>
                    (case Logger_log b LevelInfo ''Signed UKI'' w3 of
                       None \<Rightarrow> (Panic, b, w3)
                     | Some w4 \<Rightarrow> (Return None, b, w4))
                | (r, w3) \<Rightarrow> (r, b, w3))))"

text \<open>Lines 131 to 186: what runs between the registration of the deferred call and it.\<close>

definition Build_body :: "env \<Rightarrow> step" where
  "Build_body E b w =
     and_then (and_then (and_then (sign_sd_boot E b w) (generate_sections E)) (assemble_UKI E))
       (sign_UKI E)"

text \<open>
  The deferred function of lines 125 to 129. It runs when \<^verbatim>\<open>Build\<close> returns or panics,
  after the returned value is set: \<^verbatim>\<open>err\<close> is a local variable and the result of
  \<^verbatim>\<open>Build\<close> has no name, so the assignment to \<^verbatim>\<open>err\<close> changes the world only.
\<close>

definition deferred_cleanup :: "env \<Rightarrow> builder \<Rightarrow> world \<Rightarrow> world" where
  "deferred_cleanup E b w =
     (case os_RemoveAll E (scratchDir b) w of
        (Some err, w1) \<Rightarrow> emit (Printf_event ''failed to remove scratch dir'') w1
      | (None, w1) \<Rightarrow> w1)"

definition Build :: "env \<Rightarrow> step" where
  "Build E b w =
     (case Build_setup E b w of
        Inl r \<Rightarrow> r
      | Inr (b1, w1) \<Rightarrow>
          (case Build_body E b1 w1 of
             (r, b2, w2) \<Rightarrow> (r, b2, deferred_cleanup E b2 w2)))"

subsection \<open>A concrete environment and builder\<close>

text \<open>
  An environment in which every collaborator succeeds on files that exist. Its
  \<open>Signer_Sign\<close> reads the receiver, so it panics on a nil one.
\<close>

definition env_ok :: env where
  "env_ok =
     \<lparr>constants_Name = ''Kairos'',
      constants_UKIPCR = 11,
      constants_PEMTypeRSAPublic = ''PUBLIC KEY'',
      common_Logo = ''BM-logo'',
      constants_OSReleaseFor = (\<lambda>name version. Inr (''NAME='' @ name @ '' VERSION='' @ version)),
      pesign_NewPCRSigner =
        (\<lambda>f p. case files f p of
                  None \<Rightarrow> Inl (external_error ''no such file or directory'')
                | Some d \<Rightarrow> Inr (RSAKey 1)),
      pesign_NewSecureBootSigner =
        (\<lambda>f cert key. case files f cert of
                  None \<Rightarrow> Inl (external_error ''no such file or directory'')
                | Some d \<Rightarrow> Inr (CertificateSigner 1)),
      pesign_NewSigner =
        (\<lambda>s. case s of
                None \<Rightarrow> Inl (external_error ''no certificate signer'')
              | Some c \<Rightarrow> Inr (PESigner 1)),
      Signer_Sign =
        (\<lambda>s input output f. case s of
                None \<Rightarrow> (Panic, f)
              | Some p \<Rightarrow>
                  (case files f input of
                     None \<Rightarrow> (Return (Some (external_error ''no such file or directory'')), f)
                   | Some d \<Rightarrow> (Return None, f\<lparr>files := (files f)(output \<mapsto> ''signed '' @ d)\<rparr>))),
      DiscoverKernelVersion = (\<lambda>f p. (''6.1.0'', None)),
      GetSBAT = (\<lambda>f p. Inr ''sbat,1''),
      x509_MarshalPKIXPublicKey = (\<lambda>k. Inr ''DER''),
      pem_EncodeToMemory = (\<lambda>t bytes. ''BEGIN '' @ t @ '' '' @ bytes),
      measure_GenerateSignedPCR = (\<lambda>f m k pcr. Inr (PCRData ''{}'')),
      json_Marshal = (\<lambda>d. case d of PCRData s \<Rightarrow> Inr s),
      assemble_result =
        (\<lambda>stub secs scratch f.
           (Inr (filepath_Join scratch ''unsigned.uki''),
            f\<lparr>files := (files f)(filepath_Join scratch ''unsigned.uki'' \<mapsto> ''uki'')\<rparr>)),
      MkdirTemp_result = (\<lambda>f. Inr ''/tmp/ukify1''),
      WriteFile_fault = (\<lambda>f p. None),
      ReadFile_fault = (\<lambda>f p. None),
      RemoveAll_fault = (\<lambda>f p. None)\<rparr>"

text \<open>A builder as a caller fills it in: both signers supplied, the private fields zero.\<close>

definition builder0 :: builder where
  "builder0 =
     \<lparr>Arch = ''amd64'', Version = ''v1'', SdStubPath = ''stub.efi'', SdBootPath = ''boot.efi'',
      KernelPath = ''vmlinuz'', InitrdPath = ''initrd'', Cmdline = ''console=ttyS0 reboot=k'',
      OsRelease = [], SecureBootSigner = Some (CertificateSigner 0), SBKey = [], SBCert = [],
      PCRSigner = Some (RSAKey 0), PCRKey = [], Splash = [],
      OutSdBootPath = ''boot.signed.efi'', OutUKIPath = ''out.efi'',
      Logger = None, LogLevel = ''Debug'', sections = [], scratchDir = [], peSigner = None,
      unsignedUKIPath = []\<rparr>"

definition world0 :: world where
  "world0 =
     \<lparr>fs = \<lparr>files = [''boot.efi'' \<mapsto> ''sd-boot''], dirs = {}\<rparr>,
      slog_level = LevelError, trace = []\<rparr>"

text \<open>The builder and the world that \<^verbatim>\<open>Build\<close> leaves behind on \<open>builder0\<close> and \<open>world0\<close>.\<close>

definition builder1 :: builder where
  "builder1 =
     builder0\<lparr>Logger := Some slog_Default,
       sections :=
         [\<lparr>Name = constants_OSRel, Path = ''/tmp/ukify1/os-release'', Measure = True, Append = True\<rparr>,
          \<lparr>Name = constants_CMDLine, Path = ''/tmp/ukify1/cmdline'', Measure = True, Append = True\<rparr>,
          \<lparr>Name = constants_Initrd, Path = ''initrd'', Measure = True, Append = True\<rparr>,
          \<lparr>Name = constants_Splash, Path = ''/tmp/ukify1/splash.bmp'', Measure = True, Append = True\<rparr>,
          \<lparr>Name = constants_Uname, Path = ''/tmp/ukify1/uname'', Measure = True, Append = True\<rparr>,
          \<lparr>Name = constants_SBAT, Path = ''/tmp/ukify1/sbat'', Measure = True, Append = False\<rparr>,
          \<lparr>Name = constants_PCRPKey, Path = ''/tmp/ukify1/pcr-public.pem'', Measure = True, Append = True\<rparr>,
          \<lparr>Name = constants_Linux, Path = ''vmlinuz'', Measure = True, Append = True\<rparr>,
          \<lparr>Name = constants_PCRSig, Path = ''/tmp/ukify1/pcrpsig'', Measure = False, Append = True\<rparr>],
       scratchDir := ''/tmp/ukify1'',
       peSigner := Some (PESigner 1),
       unsignedUKIPath := ''/tmp/ukify1/unsigned.uki''\<rparr>"

definition world1 :: world where
  "world1 = snd (snd (Build env_ok builder0 world0))"

text \<open>The same environment with a kernel version prober that finds nothing.\<close>

definition env_no_version :: env where
  "env_no_version =
     env_ok\<lparr>DiscoverKernelVersion := (\<lambda>f p. ([], Some (external_error ''no version found'')))\<rparr>"

subsection \<open>What a step adds\<close>

text \<open>
  The sections and the events a step has added, and the relation between the state
  before and after a step that only appends sections satisfying \<open>P\<close> and only records
  events satisfying \<open>Q\<close>, leaving the configuration and the log level alone.
\<close>

definition new_sections :: "builder \<Rightarrow> builder \<Rightarrow> UkiSection list" where
  "new_sections b b' = drop (length (sections b)) (sections b')"

definition new_events :: "world \<Rightarrow> world \<Rightarrow> event list" where
  "new_events w w' = drop (length (trace w)) (trace w')"

definition is_Log :: "event \<Rightarrow> bool" where
  "is_Log e = (case e of Log_event l lvl msg \<Rightarrow> True | _ \<Rightarrow> False)"

text \<open>The events a section generator records: log lines and the calls to the measurement engine.\<close>

definition generator_event :: "event \<Rightarrow> bool" where
  "generator_event e =
     (case e of
        Log_event l lvl msg \<Rightarrow> True
      | GenerateSignedPCR_event m k \<Rightarrow> True
      | PrintSystemdMeasurements_event \<Rightarrow> True
      | _ \<Rightarrow> False)"

definition advances :: "(UkiSection \<Rightarrow> bool) \<Rightarrow> (event \<Rightarrow> bool) \<Rightarrow> builder \<Rightarrow> world \<Rightarrow> builder \<Rightarrow> world \<Rightarrow> bool" where
  "advances P Q b w b' w' =
     (b' = b\<lparr>sections := sections b', peSigner := peSigner b', unsignedUKIPath := unsignedUKIPath b'\<rparr>
      \<and> prefix (sections b) (sections b') \<and> list_all P (new_sections b b')
      \<and> prefix (trace w) (trace w') \<and> list_all Q (new_events w w')
      \<and> slog_level w' = slog_level w)"

definition step_advances :: "(UkiSection \<Rightarrow> bool) \<Rightarrow> (event \<Rightarrow> bool) \<Rightarrow> step \<Rightarrow> bool" where
  "step_advances P Q g = (\<forall>b w r b' w'. g b w = (r, b', w') \<longrightarrow> advances P Q b w b' w')"

definition armed :: "builder \<Rightarrow> bool" where
  "armed b = (Logger b \<noteq> None \<and> PCRSigner b \<noteq> None)"


section \<open>Properties\<close>

subsection \<open>The generators only append\<close>

lemma advances_refl: "advances P Q b w b w"
  by (simp add: advances_def new_sections_def new_events_def)

lemma advances_trans:
  assumes "advances P Q b w b1 w1" "advances P Q b1 w1 b2 w2"
  shows "advances P Q b w b2 w2"
proof -
  from assms obtain ys evs where 1: "sections b1 = sections b @ ys" "trace w1 = trace w @ evs"
    by (auto simp: advances_def prefix_def)
  from assms obtain zs fvs where 2: "sections b2 = sections b1 @ zs" "trace w2 = trace w1 @ fvs"
    by (auto simp: advances_def prefix_def)
  have f: "b2 = b\<lparr>sections := sections b2, peSigner := peSigner b2, unsignedUKIPath := unsignedUKIPath b2\<rparr>"
    using assms unfolding advances_def by (cases b, cases b1, cases b2) auto
  show ?thesis
    using assms 1 2 f unfolding advances_def new_sections_def new_events_def
    by simp
qed

lemma advances_mono:
  assumes "advances P Q b w b' w'" "\<And>s. P s \<Longrightarrow> P' s" "\<And>e. Q e \<Longrightarrow> Q' e"
  shows "advances P' Q' b w b' w'"
  using assms unfolding advances_def list_all_iff by blast

lemma step_advances_mono:
  "step_advances P Q g \<Longrightarrow> (\<And>s. P s \<Longrightarrow> P' s) \<Longrightarrow> (\<And>e. Q e \<Longrightarrow> Q' e) \<Longrightarrow> step_advances P' Q' g"
  unfolding step_advances_def using advances_mono by blast

lemma advances_armed: "advances P Q b w b' w' \<Longrightarrow> armed b' = armed b"
  unfolding advances_def armed_def
  by (metis builder.select_convs(12,17) builder.surjective builder.update_convs(19,21,22))

lemmas gen_defs = Logger_log_def os_WriteFile_def append_section_def emit_def
  advances_def new_sections_def new_events_def is_Log_def step_advances_def

lemma generateOSRel_advances:
  "step_advances (\<lambda>s. Name s = constants_OSRel \<and> Measure s) is_Log (generateOSRel E)"
  by (auto simp: generateOSRel_def gen_defs split: option.splits prod.splits sum.splits if_splits)

lemma generateCmdline_advances:
  "step_advances (\<lambda>s. Name s = constants_CMDLine \<and> Measure s) is_Log (generateCmdline E)"
  by (auto simp: generateCmdline_def gen_defs split: option.splits prod.splits sum.splits if_splits)

lemma generateInitrd_advances:
  "step_advances (\<lambda>s. Name s = constants_Initrd \<and> Measure s) is_Log (generateInitrd E)"
  by (auto simp: generateInitrd_def gen_defs split: option.splits prod.splits sum.splits if_splits)

lemma generateSplash_advances:
  "step_advances (\<lambda>s. Name s = constants_Splash \<and> Measure s) is_Log (generateSplash E)"
  by (auto simp: generateSplash_def splash_data_def gen_defs split: option.splits prod.splits sum.splits if_splits)

lemma generateUname_advances:
  "step_advances (\<lambda>s. Name s = constants_Uname \<and> Measure s) is_Log (generateUname E)"
  by (auto simp: generateUname_def gen_defs split: option.splits prod.splits sum.splits if_splits)

lemma generateSBAT_advances:
  "step_advances (\<lambda>s. Name s = constants_SBAT \<and> Measure s) is_Log (generateSBAT E)"
  by (auto simp: generateSBAT_def gen_defs split: option.splits prod.splits sum.splits if_splits)

lemma generatePCRPublicKey_advances:
  "step_advances (\<lambda>s. Name s = constants_PCRPKey \<and> Measure s) is_Log (generatePCRPublicKey E)"
  by (auto simp: generatePCRPublicKey_def gen_defs split: option.splits prod.splits sum.splits if_splits)

lemma generateKernel_advances:
  "step_advances (\<lambda>s. Name s = constants_Linux \<and> Measure s) is_Log (generateKernel E)"
  by (auto simp: generateKernel_def gen_defs split: option.splits prod.splits sum.splits if_splits)

lemma generatePCRSig_advances:
  "step_advances (\<lambda>s. Name s = constants_PCRSig \<and> \<not> Measure s) generator_event (generatePCRSig E)"
  by (auto simp: generatePCRSig_def GenerateSignedPCR_call_def debug_print_def gen_defs
        generator_event_def
      split: option.splits prod.splits sum.splits if_splits)

lemma run_generators_advances:
  assumes "\<forall>g\<in>set gs. step_advances P Q g"
  shows "step_advances P Q (run_generators gs)"
  using assms
proof (induction gs)
  case Nil
  show ?case by (simp add: step_advances_def advances_refl)
next
  case (Cons g gs)
  have g: "step_advances P Q g" and rest: "step_advances P Q (run_generators gs)"
    using Cons by simp_all
  show ?case
    unfolding step_advances_def
  proof (intro allI impI)
    fix b w r b' w'
    assume run: "run_generators (g # gs) b w = (r, b', w')"
    obtain r1 b1 w1 where g1: "g b w = (r1, b1, w1)" by (cases "g b w") auto
    have a1: "advances P Q b w b1 w1" using g g1 by (simp add: step_advances_def)
    show "advances P Q b w b' w'"
    proof (cases "r1 = Return None")
      case True
      then have "run_generators gs b1 w1 = (r, b', w')" using run g1 by simp
      then have "advances P Q b1 w1 b' w'" using rest by (simp add: step_advances_def)
      then show ?thesis using a1 advances_trans by blast
    next
      case False
      then have "b' = b1 \<and> w' = w1" using run g1
        by (cases r1) (auto split: option.splits)
      then show ?thesis using a1 by simp
    qed
  qed
qed

subsection \<open>Evaluation\<close>

lemmas model_defs =
  Build_def Build_setup_def configure_logging_def resolve_PCRSigner_def
  resolve_SecureBootSigner_def os_MkdirTemp_def Build_body_def and_then_def sign_sd_boot_def
  peSigner_Sign_def slog_Info_def generate_sections_def Logger_log_def section_generators_def
  generateOSRel_def generateCmdline_def generateInitrd_def generateSplash_def splash_data_def
  generateUname_def generateSBAT_def generatePCRPublicKey_def generateKernel_def
  generatePCRSig_def assemble_UKI_def assemble_def sign_UKI_def deferred_cleanup_def
  os_RemoveAll_def os_WriteFile_def os_ReadFile_def filepath_Join_def append_section_def
  GenerateSignedPCR_call_def debug_print_def level_of_def emit_def

lemma strings_ToLower_Nil [simp]: "strings_ToLower [] = []"
  by (simp add: strings_ToLower_def)

lemmas fixture_defs = env_ok_def builder0_def world0_def builder1_def env_no_version_def

subsection \<open>The command line section\<close>

text \<open>
  Claim C8. When \<^verbatim>\<open>generateCmdline\<close> returns nil it has appended one section, named
  CMDLine, measured and appended to the image, whose file holds exactly the bytes of
  \<^verbatim>\<open>builder.Cmdline\<close>: nothing is added to them and nothing is changed. When it does not
  return nil the list is as before. It returns nil whenever the logger is set and the write
  is not refused.
\<close>

theorem generateCmdline_verbatim:
  assumes "generateCmdline E b w = (r, b', w')"
  shows "(r = Return None \<longrightarrow>
           (\<exists>s. sections b' = sections b @ [s] \<and> Name s = constants_CMDLine
                \<and> Path s = filepath_Join (scratchDir b) ''cmdline''
                \<and> Measure s \<and> Append s
                \<and> files (fs w') (Path s) = Some (Cmdline b)))
       \<and> (r \<noteq> Return None \<longrightarrow> sections b' = sections b)
       \<and> (Logger b \<noteq> None
            \<and> WriteFile_fault E (fs w) (filepath_Join (scratchDir b) ''cmdline'') = None
            \<longrightarrow> r = Return None)"
  using assms
  by (auto simp: generateCmdline_def Logger_log_def os_WriteFile_def append_section_def emit_def
      split: option.splits prod.splits if_splits)

text \<open>The command line "console=ttyS0 reboot=k" of the spec, written to the scratch directory.\<close>

theorem generateCmdline_verbatim_witness:
  "fst (generateCmdline env_ok (builder0\<lparr>Logger := Some slog_Default, scratchDir := ''/tmp/ukify1''\<rparr>) world0)
     = Return None
   \<and> files (fs (snd (snd (generateCmdline env_ok
         (builder0\<lparr>Logger := Some slog_Default, scratchDir := ''/tmp/ukify1''\<rparr>) world0))))
       ''/tmp/ukify1/cmdline'' = Some ''console=ttyS0 reboot=k''"
  using generateCmdline_verbatim [of env_ok
      "builder0\<lparr>Logger := Some slog_Default, scratchDir := ''/tmp/ukify1''\<rparr>" world0
      "fst (generateCmdline env_ok (builder0\<lparr>Logger := Some slog_Default, scratchDir := ''/tmp/ukify1''\<rparr>) world0)"
      "fst (snd (generateCmdline env_ok (builder0\<lparr>Logger := Some slog_Default, scratchDir := ''/tmp/ukify1''\<rparr>) world0))"
      "snd (snd (generateCmdline env_ok (builder0\<lparr>Logger := Some slog_Default, scratchDir := ''/tmp/ukify1''\<rparr>) world0))"]
  by (simp add: model_defs fixture_defs)

subsection \<open>The splash section\<close>



subsection \<open>The stages of Build\<close>

text \<open>
  A relation that holds across every stage of the body holds across the body, and one that
  holds across every generator holds across the loop.
\<close>

lemma and_then_Return_None: "and_then (Return None, b, w) k = k b w"
  by (simp add: and_then_def)

lemma and_then_other: "r \<noteq> Return None \<Longrightarrow> and_then (r, b, w) k = (r, b, w)"
  by (cases r) (auto simp: and_then_def split: option.splits)

lemma Build_body_rel:
  assumes chain: "\<And>b w b1 w1 r b2 w2. R b w (Return None) b1 w1 \<Longrightarrow> R b1 w1 r b2 w2 \<Longrightarrow> R b w r b2 w2"
      and sd: "\<And>b w r b' w'. sign_sd_boot E b w = (r, b', w') \<Longrightarrow> R b w r b' w'"
      and gen: "\<And>b w r b' w'. generate_sections E b w = (r, b', w') \<Longrightarrow> R b w r b' w'"
      and asm: "\<And>b w r b' w'. assemble_UKI E b w = (r, b', w') \<Longrightarrow> R b w r b' w'"
      and sign: "\<And>b w r b' w'. sign_UKI E b w = (r, b', w') \<Longrightarrow> R b w r b' w'"
      and run: "Build_body E b w = (r, b', w')"
  shows "R b w r b' w'"
proof -
  obtain r1 b1 w1 where s1: "sign_sd_boot E b w = (r1, b1, w1)"
    by (cases "sign_sd_boot E b w") auto
  have R1: "R b w r1 b1 w1" using sd s1 by blast
  show ?thesis
  proof (cases "r1 = Return None")
    case False
    then have "Build_body E b w = (r1, b1, w1)"
      by (simp add: Build_body_def s1 and_then_other)
    then show ?thesis using run R1 by simp
  next
    case True
    obtain r2 b2 w2 where s2: "generate_sections E b1 w1 = (r2, b2, w2)"
      by (cases "generate_sections E b1 w1") auto
    have R2: "R b w r2 b2 w2" using chain R1 True gen s2 by blast
    show ?thesis
    proof (cases "r2 = Return None")
      case False
      then have "Build_body E b w = (r2, b2, w2)"
        using True by (simp add: Build_body_def s1 s2 and_then_other and_then_Return_None)
      then show ?thesis using run R2 by simp
    next
      case True2: True
      obtain r3 b3 w3 where s3: "assemble_UKI E b2 w2 = (r3, b3, w3)"
        by (cases "assemble_UKI E b2 w2") auto
      have R3: "R b w r3 b3 w3" using chain R2 True2 asm s3 by blast
      show ?thesis
      proof (cases "r3 = Return None")
        case False
        then have "Build_body E b w = (r3, b3, w3)"
          using True True2 by (simp add: Build_body_def s1 s2 s3 and_then_other and_then_Return_None)
        then show ?thesis using run R3 by simp
      next
        case True3: True
        have "Build_body E b w = sign_UKI E b3 w3"
          using True True2 True3 by (simp add: Build_body_def s1 s2 s3 and_then_Return_None)
        then have "sign_UKI E b3 w3 = (r, b', w')" using run by simp
        then have "R b3 w3 r b' w'" using sign by blast
        then show ?thesis using chain R3 True3 by blast
      qed
    qed
  qed
qed

lemma run_generators_rel:
  assumes chain: "\<And>b w b1 w1 r b2 w2. R b w (Return None) b1 w1 \<Longrightarrow> R b1 w1 r b2 w2 \<Longrightarrow> R b w r b2 w2"
      and refl: "\<And>b w. R b w (Return None) b w"
      and wrap: "\<And>b w e b' w' msg. R b w (Return (Some e)) b' w' \<Longrightarrow> R b w (Return (Some (fmt_Errorf msg e))) b' w'"
      and gs: "\<And>g b w r b' w'. g \<in> set gs \<Longrightarrow> g b w = (r, b', w') \<Longrightarrow> R b w r b' w'"
      and run: "run_generators gs b w = (r, b', w')"
  shows "R b w r b' w'"
  using gs run
proof (induction gs arbitrary: b w)
  case Nil
  then show ?case using refl by simp
next
  case (Cons g gs)
  obtain r1 b1 w1 where g1: "g b w = (r1, b1, w1)" by (cases "g b w") auto
  have R1: "R b w r1 b1 w1" using Cons.prems(1)[of g b w r1 b1 w1] g1 by simp
  show ?case
  proof (cases r1)
    case Panic
    then show ?thesis using Cons.prems(2) g1 R1 by simp
  next
    case (Return eo)
    show ?thesis
    proof (cases eo)
      case None
      then have "run_generators gs b1 w1 = (r, b', w')" using Cons.prems(2) g1 Return by simp
      then have "R b1 w1 r b' w'" using Cons.IH[of b1 w1] Cons.prems(1) by (meson list.set_intros(2))
      then show ?thesis using chain R1 Return None by blast
    next
      case (Some e)
      then show ?thesis using Cons.prems(2) g1 R1 Return wrap by auto
    qed
  qed
qed


lemma Build_setup_Inr:
  assumes "Build_setup E b w = Inr (b1, w1)"
  shows "b1 = b\<lparr>SecureBootSigner := SecureBootSigner b1, PCRSigner := PCRSigner b1,
                  Logger := Logger b1, scratchDir := scratchDir b1\<rparr>"
    and "Logger b1 = Some (case Logger b of None \<Rightarrow> slog_Default | Some l \<Rightarrow> l)"
    and "PCRSigner b1 \<noteq> None" and "SecureBootSigner b1 \<noteq> None"
    and "trace w1 = trace w @ [MkdirTemp_event]"
    and "slog_level w1 = level_of (LogLevel b)"
    and "MkdirTemp_result E (fs w) = Inr (scratchDir b1)"
    and "fs w1 = (fs w)\<lparr>dirs := insert (scratchDir b1) (dirs (fs w))\<rparr>"
  using assms
  by (auto simp: Build_setup_def configure_logging_def resolve_PCRSigner_def
        resolve_SecureBootSigner_def os_MkdirTemp_def emit_def
      split: prod.splits sum.splits if_splits option.splits)

lemma Build_setup_Inl:
  assumes "Build_setup E b w = Inl (r, b1, w1)"
  shows "\<exists>err. r = Return (Some err)"
    and "b1 = b\<lparr>SecureBootSigner := SecureBootSigner b1, PCRSigner := PCRSigner b1,
                  Logger := Logger b1, scratchDir := scratchDir b1\<rparr>"
    and "Logger b1 = Some (case Logger b of None \<Rightarrow> slog_Default | Some l \<Rightarrow> l)"
    and "slog_level w1 = level_of (LogLevel b)"
    and "fs w1 = fs w"
    and "trace w1 = trace w \<or> trace w1 = trace w @ [MkdirTemp_event]"
  using assms
  by (auto simp: Build_setup_def configure_logging_def resolve_PCRSigner_def
        resolve_SecureBootSigner_def os_MkdirTemp_def emit_def
      split: prod.splits sum.splits if_splits option.splits)

lemma sign_sd_boot_advances:
  "step_advances (\<lambda>s. False) (\<lambda>e. True) (sign_sd_boot E)"
  by (auto simp: sign_sd_boot_def peSigner_Sign_def slog_Info_def gen_defs
      split: option.splits prod.splits sum.splits if_splits outcome.splits)

lemma assemble_UKI_advances:
  "step_advances (\<lambda>s. False) (\<lambda>e. is_Log e \<or> e = assemble_event) (assemble_UKI E)"
  by (auto simp: assemble_UKI_def assemble_def gen_defs
      split: option.splits prod.splits sum.splits if_splits outcome.splits)

lemma sign_UKI_advances:
  "step_advances (\<lambda>s. False) (\<lambda>e. True) (sign_UKI E)"
  by (auto simp: sign_UKI_def peSigner_Sign_def gen_defs
      split: option.splits prod.splits sum.splits if_splits outcome.splits)


lemma section_generators_advances:
  assumes "g \<in> set (section_generators E)"
  shows "step_advances (\<lambda>s. True) (\<lambda>e. True) g"
  using assms
    step_advances_mono [OF generateOSRel_advances, of "\<lambda>s. True" "\<lambda>e. True" E]
    step_advances_mono [OF generateCmdline_advances, of "\<lambda>s. True" "\<lambda>e. True" E]
    step_advances_mono [OF generateInitrd_advances, of "\<lambda>s. True" "\<lambda>e. True" E]
    step_advances_mono [OF generateSplash_advances, of "\<lambda>s. True" "\<lambda>e. True" E]
    step_advances_mono [OF generateUname_advances, of "\<lambda>s. True" "\<lambda>e. True" E]
    step_advances_mono [OF generateSBAT_advances, of "\<lambda>s. True" "\<lambda>e. True" E]
    step_advances_mono [OF generatePCRPublicKey_advances, of "\<lambda>s. True" "\<lambda>e. True" E]
    step_advances_mono [OF generateKernel_advances, of "\<lambda>s. True" "\<lambda>e. True" E]
    step_advances_mono [OF generatePCRSig_advances, of "\<lambda>s. True" "\<lambda>e. True" E]
  by (auto simp: section_generators_def)

lemma Logger_log_advances:
  assumes "Logger_log b lvl msg w = Some w1" "\<And>l. Q (Log_event l lvl msg)"
  shows "advances P Q b w b w1"
  using assms by (auto simp: gen_defs split: option.splits)

lemma generate_sections_rel:
  assumes run: "step_advances P Q (run_generators (section_generators E))"
      and logs: "\<And>l lvl msg. Q (Log_event l lvl msg)"
  shows "step_advances P Q (generate_sections E)"
  unfolding step_advances_def
proof (intro allI impI)
  fix b w r b' w'
  assume g: "generate_sections E b w = (r, b', w')"
  show "advances P Q b w b' w'"
  proof (cases "Logger_log b LevelInfo ''Generating UKI sections'' w")
    case None
    then show ?thesis using g by (simp add: generate_sections_def advances_refl)
  next
    case (Some w1)
    then have "run_generators (section_generators E) b w1 = (r, b', w')"
      using g by (simp add: generate_sections_def)
    then have "advances P Q b w1 b' w'" using run by (simp add: step_advances_def)
    then show ?thesis using Logger_log_advances [OF Some, of Q P] logs advances_trans by blast
  qed
qed

lemma generate_sections_advances:
  "step_advances (\<lambda>s. True) (\<lambda>e. True) (generate_sections E)"
  using generate_sections_rel run_generators_advances section_generators_advances by blast

lemma Build_body_advances:
  assumes "Build_body E b w = (r, b', w')"
  shows "advances (\<lambda>s. True) (\<lambda>e. True) b w b' w'"
proof (rule Build_body_rel [where R = "\<lambda>b w r b' w'. advances (\<lambda>s. True) (\<lambda>e. True) b w b' w'", OF _ _ _ _ _ assms])
  show "\<And>b w b1 w1 r b2 w2. advances (\<lambda>s. True) (\<lambda>e. True) b w b1 w1 \<Longrightarrow>
          advances (\<lambda>s. True) (\<lambda>e. True) b1 w1 b2 w2 \<Longrightarrow> advances (\<lambda>s. True) (\<lambda>e. True) b w b2 w2"
    using advances_trans by blast
  show "\<And>b w r b' w'. sign_sd_boot E b w = (r, b', w') \<Longrightarrow> advances (\<lambda>s. True) (\<lambda>e. True) b w b' w'"
    using step_advances_mono [OF sign_sd_boot_advances, of "\<lambda>s. True" "\<lambda>e. True" E]
    by (simp add: step_advances_def)
  show "\<And>b w r b' w'. generate_sections E b w = (r, b', w') \<Longrightarrow> advances (\<lambda>s. True) (\<lambda>e. True) b w b' w'"
    using generate_sections_advances by (simp add: step_advances_def)
  show "\<And>b w r b' w'. assemble_UKI E b w = (r, b', w') \<Longrightarrow> advances (\<lambda>s. True) (\<lambda>e. True) b w b' w'"
    using step_advances_mono [OF assemble_UKI_advances, of "\<lambda>s. True" "\<lambda>e. True" E]
    by (simp add: step_advances_def)
  show "\<And>b w r b' w'. sign_UKI E b w = (r, b', w') \<Longrightarrow> advances (\<lambda>s. True) (\<lambda>e. True) b w b' w'"
    using step_advances_mono [OF sign_UKI_advances, of "\<lambda>s. True" "\<lambda>e. True" E]
    by (simp add: step_advances_def)
qed

lemma deferred_cleanup_frame:
  "slog_level (deferred_cleanup E b w) = slog_level w"
  "prefix (trace w) (trace (deferred_cleanup E b w))"
  by (auto simp: deferred_cleanup_def os_RemoveAll_def emit_def split: option.splits)

lemma BuildE:
  assumes "Build E b w = (r, b', w')"
  obtains (early) "Build_setup E b w = Inl (r, b', w')"
        | (body) b1 w1 w2 where "Build_setup E b w = Inr (b1, w1)"
            "Build_body E b1 w1 = (r, b', w2)" "w' = deferred_cleanup E b' w2"
  using assms unfolding Build_def
  by (auto split: sum.splits prod.splits)

subsection \<open>The concrete run\<close>

lemma Build_builder0: "Build env_ok builder0 world0 = (Return None, builder1, world1)"
proof -
  obtain r b' w' where B: "Build env_ok builder0 world0 = (r, b', w')"
    by (cases "Build env_ok builder0 world0") auto
  have "r = Return None \<and> b' = builder1"
    using B [symmetric] by (simp add: model_defs fixture_defs)
  moreover have "w' = world1" using B by (simp add: world1_def)
  ultimately show ?thesis using B by simp
qed

lemma ToLower_Debug: "strings_ToLower ''Debug'' = ''debug''"
  by code_simp

subsection \<open>Logging\<close>

text \<open>
  Once the logger and the signer are set no generator and no stage panics, unless the PE
  signer itself does.
\<close>

lemma generators_no_panic:
  assumes "g \<in> set (section_generators E)" "g b w = (r, b', w')" "armed b"
  shows "armed b' \<and> r \<noteq> Panic"
proof -
  have a: "armed b'"
  proof -
    have "advances (\<lambda>s. True) (\<lambda>e. True) b w b' w'"
      using section_generators_advances [OF assms(1)] assms(2) by (simp add: step_advances_def)
    then show ?thesis using advances_armed assms(3) by blast
  qed
  have "r \<noteq> Panic"
    using assms
    by (auto simp: section_generators_def armed_def Logger_log_def
          generateOSRel_def generateCmdline_def generateInitrd_def generateSplash_def
          splash_data_def generateUname_def generateSBAT_def generatePCRPublicKey_def
          generateKernel_def generatePCRSig_def GenerateSignedPCR_call_def
        split: option.splits prod.splits sum.splits if_splits)
  then show ?thesis using a by simp
qed

lemma Build_body_no_panic:
  assumes run: "Build_body E b w = (r, b', w')"
      and sign: "\<forall>s i out f. fst (Signer_Sign E s i out f) \<noteq> Panic"
      and armed: "armed b"
  shows "r \<noteq> Panic"
proof -
  let ?R = "\<lambda>b w r b' w'. armed b \<longrightarrow> armed b' \<and> r \<noteq> Panic"
  have gens: "\<And>b w r b' w'. run_generators (section_generators E) b w = (r, b', w') \<Longrightarrow> ?R b w r b' w'"
    by (rule run_generators_rel [where R = ?R and gs = "section_generators E"])
       (use generators_no_panic in \<open>blast+\<close>)
  have "?R b w r b' w'"
  proof (rule Build_body_rel [where R = ?R, OF _ _ _ _ _ run])
    show "\<And>b w b1 w1 r b2 w2. ?R b w (Return None) b1 w1 \<Longrightarrow> ?R b1 w1 r b2 w2 \<Longrightarrow> ?R b w r b2 w2"
      by blast
    show "\<And>b w r b' w'. sign_sd_boot E b w = (r, b', w') \<Longrightarrow> ?R b w r b' w'"
      using sign
      by (auto simp: sign_sd_boot_def peSigner_Sign_def Logger_log_def armed_def
          split: option.splits prod.splits sum.splits if_splits outcome.splits)
         (metis fst_conv)+
    show "\<And>b w r b' w'. generate_sections E b w = (r, b', w') \<Longrightarrow> ?R b w r b' w'"
      using gens by (auto simp: generate_sections_def Logger_log_def armed_def split: option.splits)
    show "\<And>b w r b' w'. assemble_UKI E b w = (r, b', w') \<Longrightarrow> ?R b w r b' w'"
      by (auto simp: assemble_UKI_def assemble_def Logger_log_def armed_def
          split: option.splits prod.splits sum.splits if_splits outcome.splits)
    show "\<And>b w r b' w'. sign_UKI E b w = (r, b', w') \<Longrightarrow> ?R b w r b' w'"
      using sign
      by (auto simp: sign_UKI_def peSigner_Sign_def Logger_log_def armed_def
          split: option.splits prod.splits sum.splits if_splits outcome.splits)
         (metis fst_conv)+
  qed
  then show ?thesis using armed by simp
qed

text \<open>
  Claim C10. Whatever \<^verbatim>\<open>Build\<close> returns, and on whichever path: the builder's logger
  is afterwards the one supplied, or the process default logger when none was supplied;
  the process-wide log level is Debug, Warn or Error when the lower-cased
  \<^verbatim>\<open>LogLevel\<close> is "debug", "warn" or "error", and Info for every other string, the
  empty one included; and no log call panics on a nil logger: \<^verbatim>\<open>Build\<close> panics only
  if the PE signer's \<^verbatim>\<open>Sign\<close> does.
\<close>

theorem Build_logging:
  assumes "Build E b w = (r, b', w')"
  shows "Logger b' = Some (case Logger b of None \<Rightarrow> slog_Default | Some l \<Rightarrow> l)
       \<and> slog_level w' =
           (if strings_ToLower (LogLevel b) = ''debug'' then LevelDebug
            else if strings_ToLower (LogLevel b) = ''warn'' then LevelWarn
            else if strings_ToLower (LogLevel b) = ''error'' then LevelError
            else LevelInfo)
       \<and> ((\<forall>s i out f. fst (Signer_Sign E s i out f) \<noteq> Panic) \<longrightarrow> r \<noteq> Panic)"
  using assms
proof (cases rule: BuildE)
  case early
  then show ?thesis
    using Build_setup_Inl [OF early] by (auto simp: level_of_def)
next
  case (body b1 w1 w2)
  have adv: "advances (\<lambda>s. True) (\<lambda>e. True) b1 w1 b' w2"
    using Build_body_advances body(2) by blast
  have l: "Logger b' = Logger b1"
    using adv unfolding advances_def by (cases b1, cases b') auto
  have s: "slog_level w' = slog_level w1"
    using adv body(3) deferred_cleanup_frame(1) by (simp add: advances_def)
  have "armed b1" using Build_setup_Inr [OF body(1)] by (simp add: armed_def)
  then have p: "(\<forall>s i out f. fst (Signer_Sign E s i out f) \<noteq> Panic) \<longrightarrow> r \<noteq> Panic"
    using Build_body_no_panic [OF body(2)] by blast
  show ?thesis
    using l s p Build_setup_Inr(2,6) [OF body(1)] by (simp add: level_of_def)
qed

text \<open>
  \<open>builder0\<close> has no logger and the level "Debug"; with the empty level (and no PCR
  signer, so that \<^verbatim>\<open>Build\<close> returns at once) the level becomes Info.
\<close>

theorem Build_logging_witness:
  "Build env_ok builder0 world0 = (Return None, builder1, world1)
   \<and> Logger builder0 = None \<and> LogLevel builder0 = ''Debug'' \<and> slog_level world0 = LevelError
   \<and> Logger builder1 = Some slog_Default \<and> slog_level world1 = LevelDebug
   \<and> slog_level (snd (snd (Build env_ok (builder0\<lparr>PCRSigner := None, LogLevel := []\<rparr>) world0)))
       = LevelInfo"
proof -
  have a: "Logger builder1 = Some slog_Default \<and> slog_level world1 = LevelDebug"
    using Build_logging [OF Build_builder0] by (simp add: builder0_def ToLower_Debug)
  obtain r b' w' where B: "Build env_ok (builder0\<lparr>PCRSigner := None, LogLevel := []\<rparr>) world0 = (r, b', w')"
    by (cases "Build env_ok (builder0\<lparr>PCRSigner := None, LogLevel := []\<rparr>) world0") auto
  have c: "slog_level w' = LevelInfo"
    using Build_logging [OF B] by simp
  show ?thesis
    using a B c Build_builder0 by (simp add: builder0_def world0_def)
qed

subsection \<open>The sections of a successful build\<close>

lemma run_generators_append:
  "run_generators (xs @ ys) b w =
     (case run_generators xs b w of
        (Return None, b1, w1) \<Rightarrow> run_generators ys b1 w1
      | r \<Rightarrow> r)"
  by (induction xs arbitrary: b w) (auto split: prod.splits outcome.splits option.splits)

lemma advances_False_sections:
  "advances (\<lambda>s. False) Q b w b' w' \<Longrightarrow> sections b' = sections b"
  by (auto simp: advances_def new_sections_def prefix_def list_all_iff)

lemma advances_sections:
  "advances P Q b w b' w' \<Longrightarrow> \<exists>ys. sections b' = sections b @ ys \<and> (\<forall>s\<in>set ys. P s)"
  by (auto simp: advances_def new_sections_def prefix_def list_all_iff)

lemma first_generators_advances:
  assumes "g \<in> set [generateOSRel E, generateCmdline E, generateInitrd E, generateSplash E,
                      generateUname E, generateSBAT E, generatePCRPublicKey E]"
  shows "step_advances (\<lambda>s. Name s \<noteq> constants_Linux \<and> Name s \<noteq> constants_PCRSig) is_Log g"
  using assms
    step_advances_mono [OF generateOSRel_advances, of "\<lambda>s. Name s \<noteq> constants_Linux \<and> Name s \<noteq> constants_PCRSig" is_Log E]
    step_advances_mono [OF generateCmdline_advances, of "\<lambda>s. Name s \<noteq> constants_Linux \<and> Name s \<noteq> constants_PCRSig" is_Log E]
    step_advances_mono [OF generateInitrd_advances, of "\<lambda>s. Name s \<noteq> constants_Linux \<and> Name s \<noteq> constants_PCRSig" is_Log E]
    step_advances_mono [OF generateSplash_advances, of "\<lambda>s. Name s \<noteq> constants_Linux \<and> Name s \<noteq> constants_PCRSig" is_Log E]
    step_advances_mono [OF generateUname_advances, of "\<lambda>s. Name s \<noteq> constants_Linux \<and> Name s \<noteq> constants_PCRSig" is_Log E]
    step_advances_mono [OF generateSBAT_advances, of "\<lambda>s. Name s \<noteq> constants_Linux \<and> Name s \<noteq> constants_PCRSig" is_Log E]
    step_advances_mono [OF generatePCRPublicKey_advances, of "\<lambda>s. Name s \<noteq> constants_Linux \<and> Name s \<noteq> constants_PCRSig" is_Log E]
  by auto

lemma section_generators_split:
  "section_generators E =
     [generateOSRel E, generateCmdline E, generateInitrd E, generateSplash E,
      generateUname E, generateSBAT E, generatePCRPublicKey E]
     @ [generateKernel E] @ [generatePCRSig E]"
  by (simp add: section_generators_def)

lemma generateKernel_success:
  "generateKernel E b w = (Return None, b', w') \<Longrightarrow>
     b' = append_section \<lparr>Name = constants_Linux, Path = KernelPath b, Measure = True, Append = True\<rparr> b"
  by (auto simp: generateKernel_def split: option.splits)

lemma generatePCRSig_success:
  "generatePCRSig E b w = (Return None, b', w') \<Longrightarrow>
     b' = append_section \<lparr>Name = constants_PCRSig, Path = filepath_Join (scratchDir b) ''pcrpsig'',
            Measure = False, Append = True\<rparr> b
     \<and> GenerateSignedPCR_event (sectionsData (sections b)) (PCRSigner b) \<in> set (new_events w w')"
  by (auto simp: generatePCRSig_def GenerateSignedPCR_call_def debug_print_def Logger_log_def
        os_WriteFile_def emit_def new_events_def
      split: option.splits prod.splits sum.splits if_splits)

lemma run_generators_success_sections:
  assumes "run_generators (section_generators E) b w = (Return None, b', w')"
  shows "\<exists>mid k p. sections b' = sections b @ mid @ [k, p]
           \<and> Name k = constants_Linux \<and> Measure k
           \<and> Name p = constants_PCRSig \<and> \<not> Measure p
           \<and> (\<forall>s\<in>set mid. Name s \<noteq> constants_Linux \<and> Name s \<noteq> constants_PCRSig)"
proof -
  let ?first = "[generateOSRel E, generateCmdline E, generateInitrd E, generateSplash E,
      generateUname E, generateSBAT E, generatePCRPublicKey E]"
  from assms obtain b1 w1 where
    1: "run_generators ?first b w = (Return None, b1, w1)"
    and r1: "run_generators ([generateKernel E] @ [generatePCRSig E]) b1 w1 = (Return None, b', w')"
    unfolding section_generators_split run_generators_append [of ?first]
    by (auto split: prod.splits outcome.splits option.splits)
  from r1 obtain b2 w2 where
    2: "generateKernel E b1 w1 = (Return None, b2, w2)"
    and 3: "generatePCRSig E b2 w2 = (Return None, b', w')"
    unfolding run_generators_append [of "[generateKernel E]"]
    by (auto split: prod.splits outcome.splits option.splits)
  have "step_advances (\<lambda>s. Name s \<noteq> constants_Linux \<and> Name s \<noteq> constants_PCRSig) is_Log
          (run_generators ?first)"
    using run_generators_advances first_generators_advances by blast
  then obtain mid where mid: "sections b1 = sections b @ mid"
      "\<forall>s\<in>set mid. Name s \<noteq> constants_Linux \<and> Name s \<noteq> constants_PCRSig"
    using 1 advances_sections unfolding step_advances_def by blast
  show ?thesis
    using mid generateKernel_success [OF 2] generatePCRSig_success [OF 3]
    by (simp add: append_section_def)
qed

lemma Build_body_success:
  assumes "Build_body E b w = (Return None, b', w')"
  shows "\<exists>b1 w1 b2 w2 b3 w3.
           sign_sd_boot E b w = (Return None, b1, w1)
           \<and> generate_sections E b1 w1 = (Return None, b2, w2)
           \<and> assemble_UKI E b2 w2 = (Return None, b3, w3)
           \<and> sign_UKI E b3 w3 = (Return None, b', w')"
  using assms unfolding Build_body_def and_then_def
  by (auto split: prod.splits outcome.splits option.splits)

lemma Build_success_sections:
  assumes "Build E b w = (Return None, b', w')"
  shows "\<exists>mid k p. sections b' = sections b @ mid @ [k, p]
           \<and> Name k = constants_Linux \<and> Measure k
           \<and> Name p = constants_PCRSig \<and> \<not> Measure p
           \<and> (\<forall>s\<in>set mid. Name s \<noteq> constants_Linux \<and> Name s \<noteq> constants_PCRSig)"
  using assms
proof (cases rule: BuildE)
  case early
  then show ?thesis using Build_setup_Inl(1) by blast
next
  case (body b0 w0 w4)
  obtain b1 w1 b2 w2 b3 w3 where
    1: "sign_sd_boot E b0 w0 = (Return None, b1, w1)"
    and 2: "generate_sections E b1 w1 = (Return None, b2, w2)"
    and 3: "assemble_UKI E b2 w2 = (Return None, b3, w3)"
    and 4: "sign_UKI E b3 w3 = (Return None, b', w4)"
    using Build_body_success [OF body(2)] by blast
  have s0: "sections b0 = sections b"
    using Build_setup_Inr(1) [OF body(1)] by (cases b, cases b0) auto
  have s1: "sections b1 = sections b0"
    using sign_sd_boot_advances 1 advances_False_sections unfolding step_advances_def by blast
  have s3: "sections b3 = sections b2"
    using assemble_UKI_advances 3 advances_False_sections unfolding step_advances_def by blast
  have s4: "sections b' = sections b3"
    using sign_UKI_advances 4 advances_False_sections unfolding step_advances_def by blast
  obtain w1' where "run_generators (section_generators E) b1 w1' = (Return None, b2, w2)"
    using 2 by (auto simp: generate_sections_def split: option.splits)
  then show ?thesis
    using run_generators_success_sections s0 s1 s3 s4 by metis
qed



subsection \<open>Kernel and measurement signature\<close>




subsection \<open>The list is never cleared\<close>



subsection \<open>Missing signers\<close>






subsection \<open>The PE signer when no boot loader is signed\<close>

lemma generators_only_sections:
  assumes "g \<in> set (section_generators E)" "g b w = (r, b', w')"
  shows "b' = b\<lparr>sections := sections b'\<rparr>"
  using assms
  by (auto simp: section_generators_def Logger_log_def append_section_def
        generateOSRel_def generateCmdline_def generateInitrd_def generateSplash_def
        splash_data_def generateUname_def generateSBAT_def generatePCRPublicKey_def
        generateKernel_def generatePCRSig_def GenerateSignedPCR_call_def os_WriteFile_def
      split: option.splits prod.splits sum.splits if_splits)

lemma section_generators_events:
  assumes "g \<in> set (section_generators E)"
  shows "step_advances (\<lambda>s. True) generator_event g"
proof -
  have l: "\<And>e. is_Log e \<Longrightarrow> generator_event e"
    by (auto simp: is_Log_def generator_event_def split: event.splits)
  show ?thesis
    using assms
      step_advances_mono [OF generateOSRel_advances, of "\<lambda>s. True" generator_event E]
      step_advances_mono [OF generateCmdline_advances, of "\<lambda>s. True" generator_event E]
      step_advances_mono [OF generateInitrd_advances, of "\<lambda>s. True" generator_event E]
      step_advances_mono [OF generateSplash_advances, of "\<lambda>s. True" generator_event E]
      step_advances_mono [OF generateUname_advances, of "\<lambda>s. True" generator_event E]
      step_advances_mono [OF generateSBAT_advances, of "\<lambda>s. True" generator_event E]
      step_advances_mono [OF generatePCRPublicKey_advances, of "\<lambda>s. True" generator_event E]
      step_advances_mono [OF generateKernel_advances, of "\<lambda>s. True" generator_event E]
      step_advances_mono [OF generatePCRSig_advances, of "\<lambda>s. True" generator_event E]
      l
    by (auto simp: section_generators_def)
qed

lemma generate_sections_events:
  "step_advances (\<lambda>s. True) generator_event (generate_sections E)"
proof (rule generate_sections_rel)
  show "step_advances (\<lambda>s. True) generator_event (run_generators (section_generators E))"
    using run_generators_advances section_generators_events by blast
  show "\<And>l lvl msg. generator_event (Log_event l lvl msg)"
    by (simp add: generator_event_def)
qed

lemma generate_sections_only_sections:
  assumes "generate_sections E b w = (r, b', w')"
  shows "b' = b\<lparr>sections := sections b'\<rparr>"
proof -
  let ?R = "\<lambda>(b::builder) (w::world) (r::outcome) (b'::builder) (w'::world). b' = b\<lparr>sections := sections b'\<rparr>"
  have run: "\<And>b w r b' w'. run_generators (section_generators E) b w = (r, b', w') \<Longrightarrow> ?R b w r b' w'"
  proof (rule run_generators_rel [where R = ?R and gs = "section_generators E"])
    show "\<And>b w b1 w1 r b2 w2. ?R b w (Return None) b1 w1 \<Longrightarrow> ?R b1 w1 r b2 w2 \<Longrightarrow> ?R b w r b2 w2"
    proof -
      fix b b1 b2 :: builder
      assume "b1 = b\<lparr>sections := sections b1\<rparr>" "b2 = b1\<lparr>sections := sections b2\<rparr>"
      then show "b2 = b\<lparr>sections := sections b2\<rparr>" by (cases b, cases b1, cases b2) auto
    qed
    show "\<And>b w. ?R b w (Return None) b w" by simp
    show "\<And>g b w r b' w'. g \<in> set (section_generators E) \<Longrightarrow> g b w = (r, b', w') \<Longrightarrow> ?R b w r b' w'"
      using generators_only_sections by blast
  qed simp_all
  show ?thesis
    using assms run by (auto simp: generate_sections_def split: option.splits)
qed


lemma new_events_trans:
  assumes "prefix (trace w) (trace w1)" "prefix (trace w1) (trace w2)"
  shows "new_events w w2 = new_events w w1 @ new_events w1 w2"
  using assms by (auto simp: prefix_def new_events_def)

lemma deferred_cleanup_events:
  "prefix (trace w) (trace (deferred_cleanup E b w))"
  "new_events w (deferred_cleanup E b w) = [RemoveAll_event (scratchDir b)]
   \<or> new_events w (deferred_cleanup E b w) =
        [RemoveAll_event (scratchDir b), Printf_event ''failed to remove scratch dir'']"
  by (auto simp: deferred_cleanup_def os_RemoveAll_def emit_def new_events_def split: option.splits)

lemma Build_body_without_sd_boot:
  assumes run: "Build_body E b w = (r, b', w')" and sd: "SdBootPath b = []"
  shows "peSigner b' = peSigner b \<and> prefix (trace w) (trace w')
       \<and> list_all (\<lambda>e. (\<forall>c. e \<noteq> NewSigner_event c)
                       \<and> (\<forall>s i out. e = Sign_event s i out \<longrightarrow> s = peSigner b))
           (new_events w w')"
proof -
  let ?Q = "\<lambda>ps e. (\<forall>c. e \<noteq> NewSigner_event c) \<and> (\<forall>s i out. e = Sign_event s i out \<longrightarrow> s = ps)"
  let ?R = "\<lambda>b w (r::outcome) b' w'. SdBootPath b = [] \<longrightarrow>
              SdBootPath b' = [] \<and> peSigner b' = peSigner b \<and> prefix (trace w) (trace w')
              \<and> list_all (?Q (peSigner b)) (new_events w w')"
  have "?R b w r b' w'"
  proof (rule Build_body_rel [where R = ?R, OF _ _ _ _ _ run])
    show "\<And>b w b1 w1 r b2 w2. ?R b w (Return None) b1 w1 \<Longrightarrow> ?R b1 w1 r b2 w2 \<Longrightarrow> ?R b w r b2 w2"
    proof (intro impI)
      fix b w b1 w1 r b2 w2
      assume 1: "?R b w (Return None) b1 w1" and 2: "?R b1 w1 r b2 w2" and s: "SdBootPath b = []"
      have a: "SdBootPath b1 = []" "peSigner b1 = peSigner b" "prefix (trace w) (trace w1)"
          "list_all (?Q (peSigner b)) (new_events w w1)"
        using 1 s by simp_all
      have c: "SdBootPath b2 = []" "peSigner b2 = peSigner b" "prefix (trace w1) (trace w2)"
          "list_all (?Q (peSigner b)) (new_events w1 w2)"
        using 2 a by simp_all
      have "prefix (trace w) (trace w2)" using a(3) c(3) by (rule prefix_order.order_trans)
      moreover have "list_all (?Q (peSigner b)) (new_events w w2)"
        unfolding new_events_trans [OF a(3) c(3)] using a(4) c(4) by simp
      ultimately show "SdBootPath b2 = [] \<and> peSigner b2 = peSigner b \<and> prefix (trace w) (trace w2)
              \<and> list_all (?Q (peSigner b)) (new_events w w2)"
        using c by simp
    qed
    show "\<And>b w r b' w'. sign_sd_boot E b w = (r, b', w') \<Longrightarrow> ?R b w r b' w'"
      by (auto simp: sign_sd_boot_def Logger_log_def emit_def new_events_def split: option.splits)
    show "?R b w r b' w'" if g: "generate_sections E b w = (r, b', w')" for b w r b' w'
    proof -
      have f: "b' = b\<lparr>sections := sections b'\<rparr>" using generate_sections_only_sections [OF g] .
      have p: "peSigner b' = peSigner b \<and> SdBootPath b' = SdBootPath b"
        using f by (cases b, cases b') auto
      have a: "advances (\<lambda>s. True) generator_event b w b' w'"
        using generate_sections_events g by (simp add: step_advances_def)
      have "list_all (?Q (peSigner b)) (new_events w w')"
        using a unfolding advances_def list_all_iff
        by (auto simp: generator_event_def split: event.splits)
      then show ?thesis using p a by (simp add: advances_def)
    qed
    show "\<And>b w r b' w'. assemble_UKI E b w = (r, b', w') \<Longrightarrow> ?R b w r b' w'"
      by (auto simp: assemble_UKI_def assemble_def Logger_log_def emit_def new_events_def
          split: option.splits prod.splits sum.splits)
    show "\<And>b w r b' w'. sign_UKI E b w = (r, b', w') \<Longrightarrow> ?R b w r b' w'"
      by (auto simp: sign_UKI_def peSigner_Sign_def Logger_log_def emit_def new_events_def
          split: option.splits prod.splits outcome.splits)
  qed
  then show ?thesis using sd by simp
qed

text \<open>
  Claim C1. The spec has the signing of the assembled image construct a PE signer when the
  boot loader step did not run. The code does not: with an empty \<^verbatim>\<open>SdBootPath\<close>,
  \<^verbatim>\<open>pesign.NewSigner\<close> is never called, \<^verbatim>\<open>builder.peSigner\<close> is left as it was at the
  call, and every call of \<^verbatim>\<open>Sign\<close> has that value as its receiver (nil on a new
  builder).
\<close>

theorem Build_without_sd_boot:
  assumes sd: "SdBootPath b = []" and run: "Build E b w = (r, b', w')"
  shows "peSigner b' = peSigner b
       \<and> (\<forall>c. NewSigner_event c \<notin> set (new_events w w'))
       \<and> (\<forall>s i out. Sign_event s i out \<in> set (new_events w w') \<longrightarrow> s = peSigner b)"
  using run
proof (cases rule: BuildE)
  case early
  have "peSigner b' = peSigner b"
    using Build_setup_Inl(2) [OF early] by (cases b, cases b') auto
  moreover have "new_events w w' = [] \<or> new_events w w' = [MkdirTemp_event]"
    using Build_setup_Inl(6) [OF early] by (auto simp: new_events_def)
  ultimately show ?thesis by auto
next
  case (body b1 w1 w2)
  have f: "peSigner b1 = peSigner b \<and> SdBootPath b1 = SdBootPath b"
    using Build_setup_Inr(1) [OF body(1)] by (cases b, cases b1) auto
  have t1: "trace w1 = trace w @ [MkdirTemp_event]" using Build_setup_Inr(5) [OF body(1)] .
  note bb = Build_body_without_sd_boot [OF body(2)]
  have 2: "peSigner b' = peSigner b" "prefix (trace w1) (trace w2)"
     "list_all (\<lambda>e. (\<forall>c. e \<noteq> NewSigner_event c)
                       \<and> (\<forall>s i out. e = Sign_event s i out \<longrightarrow> s = peSigner b))
           (new_events w1 w2)"
    using bb f sd by simp_all
  have 3: "prefix (trace w2) (trace w')" using body(3) deferred_cleanup_events(1) by simp
  have "new_events w w' = [MkdirTemp_event] @ new_events w1 w2 @ new_events w2 w'"
    using t1 2(2) 3 by (auto simp: new_events_def prefix_def)
  moreover have "new_events w2 w' = [RemoveAll_event (scratchDir b')]
     \<or> new_events w2 w' = [RemoveAll_event (scratchDir b'), Printf_event ''failed to remove scratch dir'']"
    using body(3) deferred_cleanup_events(2) by simp
  ultimately show ?thesis using 2(1,3) unfolding list_all_iff by auto
qed

text \<open>
  A new builder with both signers supplied and no boot loader path: every section is
  generated and the image assembled, then \<^verbatim>\<open>Sign\<close> is called on the nil signer.
\<close>

theorem Build_without_sd_boot_witness:
  "SdBootPath (builder0\<lparr>SdBootPath := []\<rparr>) = []
   \<and> peSigner (builder0\<lparr>SdBootPath := []\<rparr>) = None
   \<and> fst (Build env_ok (builder0\<lparr>SdBootPath := []\<rparr>) world0) = Panic
   \<and> peSigner (fst (snd (Build env_ok (builder0\<lparr>SdBootPath := []\<rparr>) world0))) = None
   \<and> Sign_event None ''/tmp/ukify1/unsigned.uki'' ''out.efi''
       \<in> set (new_events world0 (snd (snd (Build env_ok (builder0\<lparr>SdBootPath := []\<rparr>) world0))))"
proof -
  obtain r b' w' where B: "Build env_ok (builder0\<lparr>SdBootPath := []\<rparr>) world0 = (r, b', w')"
    by (cases "Build env_ok (builder0\<lparr>SdBootPath := []\<rparr>) world0") auto
  have e: "r = Panic \<and> Sign_event None ''/tmp/ukify1/unsigned.uki'' ''out.efi'' \<in> set (trace w')"
    using B [symmetric] by (simp add: model_defs fixture_defs)
  have "peSigner b' = None"
    using Build_without_sd_boot [OF _ B] by (simp add: builder0_def)
  then show ?thesis
    using e B by (simp add: builder0_def world0_def new_events_def)
qed

subsection \<open>The uname section\<close>






subsection \<open>The scratch directory\<close>

text \<open>Nothing but the deferred call depends on whether the removal fails.\<close>

lemma Build_body_RemoveAll_fault:
  "Build_body (E\<lparr>RemoveAll_fault := f\<rparr>) = Build_body E"
proof -
  have g: "section_generators (E\<lparr>RemoveAll_fault := f\<rparr>) = section_generators E"
    by (auto simp: section_generators_def fun_eq_iff
        generateOSRel_def generateCmdline_def generateInitrd_def generateSplash_def
        splash_data_def generateUname_def generateSBAT_def generatePCRPublicKey_def
        generateKernel_def generatePCRSig_def GenerateSignedPCR_call_def os_WriteFile_def
        os_ReadFile_def
        split: option.splits sum.splits prod.splits)
  have 1: "sign_sd_boot (E\<lparr>RemoveAll_fault := f\<rparr>) = sign_sd_boot E"
    by (auto simp: fun_eq_iff sign_sd_boot_def peSigner_Sign_def
        split: option.splits sum.splits prod.splits outcome.splits)
  have 2: "generate_sections (E\<lparr>RemoveAll_fault := f\<rparr>) = generate_sections E"
    by (auto simp: fun_eq_iff generate_sections_def g split: option.splits)
  have 3: "assemble_UKI (E\<lparr>RemoveAll_fault := f\<rparr>) = assemble_UKI E"
    by (auto simp: fun_eq_iff assemble_UKI_def assemble_def
        split: option.splits sum.splits prod.splits outcome.splits)
  have 4: "sign_UKI (E\<lparr>RemoveAll_fault := f\<rparr>) = sign_UKI E"
    by (auto simp: fun_eq_iff sign_UKI_def peSigner_Sign_def
        split: option.splits sum.splits prod.splits outcome.splits)
  show ?thesis
    by (simp add: fun_eq_iff Build_body_def 1 2 3 4)
qed

lemma Build_setup_RemoveAll_fault:
  "Build_setup (E\<lparr>RemoveAll_fault := f\<rparr>) = Build_setup E"
  by (auto simp: fun_eq_iff Build_setup_def resolve_PCRSigner_def resolve_SecureBootSigner_def
      os_MkdirTemp_def split: option.splits sum.splits prod.splits)

lemma Build_RemoveAll_fault:
  assumes "Build E b w = (r, b', w')"
  shows "fst (Build (E\<lparr>RemoveAll_fault := f\<rparr>) b w) = r
       \<and> fst (snd (Build (E\<lparr>RemoveAll_fault := f\<rparr>) b w)) = b'"
  using assms
  by (auto simp: Build_def Build_setup_RemoveAll_fault Build_body_RemoveAll_fault
      split: sum.splits prod.splits)

text \<open>
  Claim C5. Suppose \<^verbatim>\<open>Build\<close> got as far as creating the scratch directory. Then
  whatever the rest of \<^verbatim>\<open>Build\<close> returns (nil, an error or a panic), the last thing
  that happens is \<^verbatim>\<open>os.RemoveAll\<close> on that directory: when it succeeds, the directory
  and everything below it no longer exists; when it fails, one line is logged and the file
  system stays as the body left it. What \<^verbatim>\<open>Build\<close> returns is what its body returned,
  and it is the same, with the same builder, however the removal behaves.
\<close>

theorem Build_removes_scratch:
  assumes created: "Build_setup E b w = Inr (b1, w1)" and run: "Build E b w = (r, b', w')"
  shows "scratchDir b1 \<in> dirs (fs w1)
       \<and> (\<exists>w2. Build_body E b1 w1 = (r, b', w2)
            \<and> (RemoveAll_fault E (fs w2) (scratchDir b1) = None \<longrightarrow>
                 new_events w2 w' = [RemoveAll_event (scratchDir b1)]
                 \<and> (\<forall>p. under (scratchDir b1) p \<longrightarrow> files (fs w') p = None \<and> p \<notin> dirs (fs w')))
            \<and> (\<forall>err. RemoveAll_fault E (fs w2) (scratchDir b1) = Some err \<longrightarrow>
                 new_events w2 w' = [RemoveAll_event (scratchDir b1),
                                     Printf_event ''failed to remove scratch dir'']
                 \<and> fs w' = fs w2))
       \<and> (\<forall>f. fst (Build (E\<lparr>RemoveAll_fault := f\<rparr>) b w) = r
              \<and> fst (snd (Build (E\<lparr>RemoveAll_fault := f\<rparr>) b w)) = b')"
proof -
  have d: "scratchDir b1 \<in> dirs (fs w1)"
    using Build_setup_Inr(8) [OF created] by simp
  obtain w2 where body: "Build_body E b1 w1 = (r, b', w2)" and w': "w' = deferred_cleanup E b' w2"
    using run created by (auto simp: Build_def split: prod.splits)
  have "advances (\<lambda>s. True) (\<lambda>e. True) b1 w1 b' w2"
    using Build_body_advances [OF body] .
  then have s: "scratchDir b' = scratchDir b1"
    unfolding advances_def by (cases b1, cases b') auto
  have ok: "new_events w2 w' = [RemoveAll_event (scratchDir b1)]
                 \<and> (\<forall>p. under (scratchDir b1) p \<longrightarrow> files (fs w') p = None \<and> p \<notin> dirs (fs w'))"
    if "RemoveAll_fault E (fs w2) (scratchDir b1) = None"
    using that w' s
    by (simp add: deferred_cleanup_def os_RemoveAll_def emit_def new_events_def)
  have bad: "new_events w2 w' = [RemoveAll_event (scratchDir b1),
                                     Printf_event ''failed to remove scratch dir'']
                 \<and> fs w' = fs w2"
    if "RemoveAll_fault E (fs w2) (scratchDir b1) = Some err" for err
    using that w' s
    by (simp add: deferred_cleanup_def os_RemoveAll_def emit_def new_events_def)
  have ex: "\<exists>w2. Build_body E b1 w1 = (r, b', w2)
            \<and> (RemoveAll_fault E (fs w2) (scratchDir b1) = None \<longrightarrow>
                 new_events w2 w' = [RemoveAll_event (scratchDir b1)]
                 \<and> (\<forall>p. under (scratchDir b1) p \<longrightarrow> files (fs w') p = None \<and> p \<notin> dirs (fs w')))
            \<and> (\<forall>err. RemoveAll_fault E (fs w2) (scratchDir b1) = Some err \<longrightarrow>
                 new_events w2 w' = [RemoveAll_event (scratchDir b1),
                                     Printf_event ''failed to remove scratch dir'']
                 \<and> fs w' = fs w2)"
    by (rule exI [of _ w2]) (simp add: body ok bad)
  show ?thesis
    using d ex Build_RemoveAll_fault [OF run] by simp
qed

lemma Build_setup_builder0:
  "Build_setup env_ok builder0 world0 =
     Inr (builder0\<lparr>Logger := Some slog_Default, scratchDir := ''/tmp/ukify1''\<rparr>,
          emit MkdirTemp_event
            (world0\<lparr>fs := (fs world0)\<lparr>dirs := insert ''/tmp/ukify1'' (dirs (fs world0))\<rparr>,
                    slog_level := LevelDebug\<rparr>))"
  by (simp add: Build_setup_def configure_logging_def resolve_PCRSigner_def
      resolve_SecureBootSigner_def os_MkdirTemp_def emit_def level_of_def ToLower_Debug
      env_ok_def builder0_def world0_def)

text \<open>
  The build of \<open>builder0\<close>: afterwards the scratch directory and the command line file in
  it are gone; with a removal that fails the build returns nil all the same.
\<close>

theorem Build_removes_scratch_witness:
  "Build env_ok builder0 world0 = (Return None, builder1, world1)
   \<and> ''/tmp/ukify1'' \<notin> dirs (fs world1)
   \<and> files (fs world1) ''/tmp/ukify1/cmdline'' = None
   \<and> fst (Build (env_ok\<lparr>RemoveAll_fault := (\<lambda>f p. Some (external_error ''device busy''))\<rparr>)
          builder0 world0) = Return None"
proof -
  note t = Build_removes_scratch [OF Build_setup_builder0 Build_builder0]
  have r: "\<And>f. RemoveAll_fault env_ok f ''/tmp/ukify1'' = None" by (simp add: env_ok_def)
  have u: "under ''/tmp/ukify1'' ''/tmp/ukify1''" "under ''/tmp/ukify1'' ''/tmp/ukify1/cmdline''"
    by (simp_all add: under_def)
  show ?thesis using t r u Build_builder0 by auto
qed

subsection \<open>What is measured\<close>

text \<open>
  The Go map that \<^verbatim>\<open>xslices.ToMap\<close> builds, read as a lookup in the reversed list of
  pairs: its keys are the names of the measured sections, each value is the path of a
  measured section of that name.
\<close>

lemma foldl_ToMap:
  "foldl (\<lambda>m x. m(fst (fn x) \<mapsto> snd (fn x))) m0 xs = m0 ++ map_of (rev (map fn xs))"
  by (induction xs arbitrary: m0) (auto simp: map_add_upd_left)

lemma xslices_ToMap_map_of: "xslices_ToMap xs fn = map_of (rev (map fn xs))"
  by (simp add: xslices_ToMap_def foldl_ToMap)

lemma sectionsData_dom: "dom (sectionsData secs) = Name ` {s \<in> set secs. Measure s}"
  by (auto simp: sectionsData_def xslices_ToMap_map_of dom_map_of_conv_image_fst image_iff)

lemma sectionsData_Some:
  assumes "sectionsData secs n = Some p"
  shows "\<exists>s\<in>set secs. Measure s \<and> Name s = n \<and> Path s = p"
proof -
  have "(n, p) \<in> set (rev (map (\<lambda>s. (Name s, Path s)) (filter (\<lambda>s. Measure s) secs)))"
    using assms unfolding sectionsData_def xslices_ToMap_map_of by (rule map_of_SomeD)
  then show ?thesis by auto
qed

lemma sectionsData_None:
  assumes "\<forall>s\<in>set secs. Name s = n \<longrightarrow> \<not> Measure s"
  shows "sectionsData secs n = None"
proof -
  have "n \<notin> dom (sectionsData secs)" using assms unfolding sectionsData_dom by auto
  then show ?thesis by auto
qed


lemma new_sections_trans:
  assumes "prefix (sections b) (sections b1)" "prefix (sections b1) (sections b2)"
  shows "new_sections b b2 = new_sections b b1 @ new_sections b1 b2"
  using assms by (auto simp: prefix_def new_sections_def)

lemma generatePCRSig_events:
  assumes "generatePCRSig E b w = (r, b', w')"
  shows "prefix (sections b) (sections b')" "prefix (trace w) (trace w')"
    "\<forall>s\<in>set (new_sections b b'). Name s = constants_PCRSig \<and> \<not> Measure s \<and> Append s"
    "\<forall>m k. GenerateSignedPCR_event m k \<in> set (new_events w w') \<longrightarrow>
             m = sectionsData (sections b) \<and> k = PCRSigner b"
  using assms
  by (auto simp: generatePCRSig_def GenerateSignedPCR_call_def debug_print_def Logger_log_def
        os_WriteFile_def emit_def new_events_def new_sections_def append_section_def
      split: option.splits prod.splits sum.splits if_splits)

lemma measured_rel_chain:
  fixes b b1 b2 :: builder and w w1 w2 :: world
  assumes 1: "prefix (sections b) (sections b1) \<and> prefix (trace w) (trace w1)
       \<and> (\<forall>s\<in>set (new_sections b b1). Name s = constants_PCRSig \<longrightarrow> \<not> Measure s)
       \<and> (\<forall>m k. GenerateSignedPCR_event m k \<in> set (new_events w w1) \<longrightarrow>
             (\<exists>secs. prefix (sections b) secs \<and> prefix secs (sections b1) \<and> m = sectionsData secs))"
    and 2: "prefix (sections b1) (sections b2) \<and> prefix (trace w1) (trace w2)
       \<and> (\<forall>s\<in>set (new_sections b1 b2). Name s = constants_PCRSig \<longrightarrow> \<not> Measure s)
       \<and> (\<forall>m k. GenerateSignedPCR_event m k \<in> set (new_events w1 w2) \<longrightarrow>
             (\<exists>secs. prefix (sections b1) secs \<and> prefix secs (sections b2) \<and> m = sectionsData secs))"
  shows "prefix (sections b) (sections b2) \<and> prefix (trace w) (trace w2)
       \<and> (\<forall>s\<in>set (new_sections b b2). Name s = constants_PCRSig \<longrightarrow> \<not> Measure s)
       \<and> (\<forall>m k. GenerateSignedPCR_event m k \<in> set (new_events w w2) \<longrightarrow>
             (\<exists>secs. prefix (sections b) secs \<and> prefix secs (sections b2) \<and> m = sectionsData secs))"
proof (intro conjI allI impI ballI)
  have ps: "prefix (sections b) (sections b1)" "prefix (sections b1) (sections b2)"
    and pt: "prefix (trace w) (trace w1)" "prefix (trace w1) (trace w2)"
    using 1 2 by simp_all
  show p: "prefix (sections b) (sections b2)" using ps by (rule prefix_order.order_trans)
  show "prefix (trace w) (trace w2)" using pt by (rule prefix_order.order_trans)
  show "\<not> Measure s" if "s \<in> set (new_sections b b2)" "Name s = constants_PCRSig" for s
    using that 1 2 unfolding new_sections_trans [OF ps] by auto
  show "\<exists>secs. prefix (sections b) secs \<and> prefix secs (sections b2) \<and> m = sectionsData secs"
    if e: "GenerateSignedPCR_event m k \<in> set (new_events w w2)" for m k
  proof -
    from e have "GenerateSignedPCR_event m k \<in> set (new_events w w1)
                 \<or> GenerateSignedPCR_event m k \<in> set (new_events w1 w2)"
      unfolding new_events_trans [OF pt] by simp
    then show ?thesis
    proof
      assume "GenerateSignedPCR_event m k \<in> set (new_events w w1)"
      then obtain secs where "prefix (sections b) secs" "prefix secs (sections b1)" "m = sectionsData secs"
        using 1 by blast
      then show ?thesis using ps(2) prefix_order.order_trans by blast
    next
      assume "GenerateSignedPCR_event m k \<in> set (new_events w1 w2)"
      then obtain secs where "prefix (sections b1) secs" "prefix secs (sections b2)" "m = sectionsData secs"
        using 2 by blast
      then show ?thesis using ps(1) prefix_order.order_trans by blast
    qed
  qed
qed

lemma advances_measured_rel:
  assumes a: "advances P Q b w b' w'"
      and P: "\<And>s. P s \<Longrightarrow> Name s = constants_PCRSig \<longrightarrow> \<not> Measure s"
      and Q: "\<And>e m k. Q e \<Longrightarrow> e \<noteq> GenerateSignedPCR_event m k"
  shows "prefix (sections b) (sections b') \<and> prefix (trace w) (trace w')
       \<and> (\<forall>s\<in>set (new_sections b b'). Name s = constants_PCRSig \<longrightarrow> \<not> Measure s)
       \<and> (\<forall>m k. GenerateSignedPCR_event m k \<in> set (new_events w w') \<longrightarrow>
             (\<exists>secs. prefix (sections b) secs \<and> prefix secs (sections b') \<and> m = sectionsData secs))"
  using a P Q unfolding advances_def list_all_iff by blast


lemma sign_sd_boot_quiet:
  "step_advances (\<lambda>s. False) (\<lambda>e. \<forall>m k. e \<noteq> GenerateSignedPCR_event m k) (sign_sd_boot E)"
  by (auto simp: sign_sd_boot_def peSigner_Sign_def slog_Info_def gen_defs
      split: option.splits prod.splits sum.splits if_splits outcome.splits)

lemma assemble_UKI_quiet:
  "step_advances (\<lambda>s. False) (\<lambda>e. \<forall>m k. e \<noteq> GenerateSignedPCR_event m k) (assemble_UKI E)"
  by (auto simp: assemble_UKI_def assemble_def gen_defs
      split: option.splits prod.splits sum.splits if_splits outcome.splits)

lemma sign_UKI_quiet:
  "step_advances (\<lambda>s. False) (\<lambda>e. \<forall>m k. e \<noteq> GenerateSignedPCR_event m k) (sign_UKI E)"
  by (auto simp: sign_UKI_def peSigner_Sign_def gen_defs
      split: option.splits prod.splits sum.splits if_splits outcome.splits)

lemma generators_measured_rel:
  assumes g: "g \<in> set (section_generators E)" and run: "g b w = (r, b', w')"
  shows "prefix (sections b) (sections b') \<and> prefix (trace w) (trace w')
       \<and> (\<forall>s\<in>set (new_sections b b'). Name s = constants_PCRSig \<longrightarrow> \<not> Measure s)
       \<and> (\<forall>m k. GenerateSignedPCR_event m k \<in> set (new_events w w') \<longrightarrow>
             (\<exists>secs. prefix (sections b) secs \<and> prefix secs (sections b') \<and> m = sectionsData secs))"
proof -
  have l: "\<And>e m k. is_Log e \<Longrightarrow> e \<noteq> GenerateSignedPCR_event m k"
    by (auto simp: is_Log_def)
  consider (first) P where "step_advances P is_Log g" "\<And>s. P s \<Longrightarrow> Name s \<noteq> constants_PCRSig"
    | (last) "g = generatePCRSig E"
    using g generateOSRel_advances [of E] generateCmdline_advances [of E]
      generateInitrd_advances [of E] generateSplash_advances [of E] generateUname_advances [of E]
      generateSBAT_advances [of E] generatePCRPublicKey_advances [of E]
      generateKernel_advances [of E]
    unfolding section_generators_def
    by (elim disjE | simp | fastforce)+
  then show ?thesis
  proof cases
    case first
    have "advances P is_Log b w b' w'" using first(1) run by (simp add: step_advances_def)
    then show ?thesis using advances_measured_rel [of P is_Log b w b' w'] first(2) l by blast
  next
    case last
    note e = generatePCRSig_events [OF run [unfolded last]]
    have "\<exists>secs. prefix (sections b) secs \<and> prefix secs (sections b') \<and> m = sectionsData secs"
      if "GenerateSignedPCR_event m k \<in> set (new_events w w')" for m k
      using e(1,4) that by (intro exI [of _ "sections b"]) simp
    then show ?thesis using e(1,2,3) by blast
  qed
qed


lemma quiet_measured_rel:
  assumes "step_advances (\<lambda>s. False) (\<lambda>e. \<forall>m k. e \<noteq> GenerateSignedPCR_event m k) g"
      and "g b w = (r, b', w')"
  shows "prefix (sections b) (sections b') \<and> prefix (trace w) (trace w')
       \<and> (\<forall>s\<in>set (new_sections b b'). Name s = constants_PCRSig \<longrightarrow> \<not> Measure s)
       \<and> (\<forall>m k. GenerateSignedPCR_event m k \<in> set (new_events w w') \<longrightarrow>
             (\<exists>secs. prefix (sections b) secs \<and> prefix secs (sections b') \<and> m = sectionsData secs))"
proof -
  have "advances (\<lambda>s. False) (\<lambda>e. \<forall>m k. e \<noteq> GenerateSignedPCR_event m k) b w b' w'"
    using assms by (simp add: step_advances_def)
  then show ?thesis
    using advances_measured_rel [of "\<lambda>s. False" "\<lambda>e. \<forall>m k. e \<noteq> GenerateSignedPCR_event m k" b w b' w']
    by blast
qed

lemma measured_rel_refl:
  "prefix (sections b) (sections b) \<and> prefix (trace w) (trace w)
       \<and> (\<forall>s\<in>set (new_sections b b). Name s = constants_PCRSig \<longrightarrow> \<not> Measure s)
       \<and> (\<forall>m k. GenerateSignedPCR_event m k \<in> set (new_events w w) \<longrightarrow>
             (\<exists>secs. prefix (sections b) secs \<and> prefix secs (sections b) \<and> m = sectionsData secs))"
  by (simp add: new_sections_def new_events_def)

lemma Build_body_measured_rel:
  assumes run: "Build_body E b w = (r, b', w')"
  shows "prefix (sections b) (sections b') \<and> prefix (trace w) (trace w')
       \<and> (\<forall>s\<in>set (new_sections b b'). Name s = constants_PCRSig \<longrightarrow> \<not> Measure s)
       \<and> (\<forall>m k. GenerateSignedPCR_event m k \<in> set (new_events w w') \<longrightarrow>
             (\<exists>secs. prefix (sections b) secs \<and> prefix secs (sections b') \<and> m = sectionsData secs))"
proof -
  let ?R = "(\<lambda>(b::builder) (w::world) (r::outcome) (b'::builder) (w'::world). prefix (sections b) (sections b') \<and> prefix (trace w) (trace w')
       \<and> (\<forall>s\<in>set (new_sections b b'). Name s = constants_PCRSig \<longrightarrow> \<not> Measure s)
       \<and> (\<forall>m k. GenerateSignedPCR_event m k \<in> set (new_events w w') \<longrightarrow>
             (\<exists>secs. prefix (sections b) secs \<and> prefix secs (sections b') \<and> m = sectionsData secs)))"
  have chain: "\<And>b w b1 w1 r b2 w2. ?R b w (Return None) b1 w1 \<Longrightarrow> ?R b1 w1 r b2 w2 \<Longrightarrow> ?R b w r b2 w2"
    using measured_rel_chain by blast
  have gens: "?R b w r b' w'" if "run_generators (section_generators E) b w = (r, b', w')" for b w r b' w'
  proof (rule run_generators_rel [where R = ?R and gs = "section_generators E"])
    show "\<And>b w b1 w1 r b2 w2. ?R b w (Return None) b1 w1 \<Longrightarrow> ?R b1 w1 r b2 w2 \<Longrightarrow> ?R b w r b2 w2"
      using chain by blast
    show "\<And>b w. ?R b w (Return None) b w" using measured_rel_refl by blast
    show "\<And>b w e b' w' msg. ?R b w (Return (Some e)) b' w' \<Longrightarrow> ?R b w (Return (Some (fmt_Errorf msg e))) b' w'"
      by blast
    show "\<And>g b w r b' w'. g \<in> set (section_generators E) \<Longrightarrow> g b w = (r, b', w') \<Longrightarrow> ?R b w r b' w'"
      using generators_measured_rel by blast
    show "run_generators (section_generators E) b w = (r, b', w')" by (rule that)
  qed
  have gen: "?R b w r b' w'" if g: "generate_sections E b w = (r, b', w')" for b w r b' w'
  proof (cases "Logger_log b LevelInfo ''Generating UKI sections'' w")
    case None
    then show ?thesis using g measured_rel_refl by (simp add: generate_sections_def)
  next
    case (Some w1)
    have a: "advances (\<lambda>s. False) is_Log b w b w1"
      using Logger_log_advances [OF Some, of is_Log] by (simp add: is_Log_def)
    have 1: "?R b w (Return None) b w1"
    proof (rule advances_measured_rel [OF a])
      show "\<And>s. False \<Longrightarrow> Name s = constants_PCRSig \<longrightarrow> \<not> Measure s" by simp
      show "\<And>e m k. is_Log e \<Longrightarrow> e \<noteq> GenerateSignedPCR_event m k"
        by (auto simp: is_Log_def)
    qed
    have "run_generators (section_generators E) b w1 = (r, b', w')"
      using g Some by (simp add: generate_sections_def)
    then have "?R b w1 r b' w'" using gens by blast
    then show ?thesis using chain [OF 1] by blast
  qed
  show ?thesis
  proof (rule Build_body_rel [where R = ?R, OF chain _ _ _ _ run])
    show "\<And>b w r b' w'. sign_sd_boot E b w = (r, b', w') \<Longrightarrow> ?R b w r b' w'"
      using quiet_measured_rel [OF sign_sd_boot_quiet] by blast
    show "\<And>b w r b' w'. generate_sections E b w = (r, b', w') \<Longrightarrow> ?R b w r b' w'"
      using gen by blast
    show "\<And>b w r b' w'. assemble_UKI E b w = (r, b', w') \<Longrightarrow> ?R b w r b' w'"
      using quiet_measured_rel [OF assemble_UKI_quiet] by blast
    show "\<And>b w r b' w'. sign_UKI E b w = (r, b', w') \<Longrightarrow> ?R b w r b' w'"
      using quiet_measured_rel [OF sign_UKI_quiet] by blast
  qed
qed

lemma Build_measured_rel:
  assumes run: "Build E b w = (r, b', w')"
  shows "prefix (sections b) (sections b') \<and> prefix (trace w) (trace w')
       \<and> (\<forall>s\<in>set (new_sections b b'). Name s = constants_PCRSig \<longrightarrow> \<not> Measure s)
       \<and> (\<forall>m k. GenerateSignedPCR_event m k \<in> set (new_events w w') \<longrightarrow>
             (\<exists>secs. prefix (sections b) secs \<and> prefix secs (sections b') \<and> m = sectionsData secs))"
  using run
proof (cases rule: BuildE)
  case early
  have s: "sections b' = sections b"
    using Build_setup_Inl(2) [OF early] by (cases b, cases b') auto
  have "new_events w w' = [] \<or> new_events w w' = [MkdirTemp_event]"
    using Build_setup_Inl(6) [OF early] by (auto simp: new_events_def)
  moreover have "prefix (trace w) (trace w')"
    using Build_setup_Inl(6) [OF early] by auto
  ultimately show ?thesis using s by (auto simp: new_sections_def)
next
  case (body b1 w1 w2)
  have s: "sections b1 = sections b"
    using Build_setup_Inr(1) [OF body(1)] by (cases b, cases b1) auto
  have t: "trace w1 = trace w @ [MkdirTemp_event]" using Build_setup_Inr(5) [OF body(1)] .
  have 1: "prefix (sections b) (sections b1) \<and> prefix (trace w) (trace w1)
       \<and> (\<forall>s\<in>set (new_sections b b1). Name s = constants_PCRSig \<longrightarrow> \<not> Measure s)
       \<and> (\<forall>m k. GenerateSignedPCR_event m k \<in> set (new_events w w1) \<longrightarrow>
             (\<exists>secs. prefix (sections b) secs \<and> prefix secs (sections b1) \<and> m = sectionsData secs))"
    using s t by (auto simp: new_sections_def new_events_def)
  note 2 = Build_body_measured_rel [OF body(2)]
  have c: "prefix (trace w2) (trace w')"
    "new_events w2 w' = [RemoveAll_event (scratchDir b')]
     \<or> new_events w2 w' = [RemoveAll_event (scratchDir b'), Printf_event ''failed to remove scratch dir'']"
    using body(3) deferred_cleanup_events by simp_all
  have 3: "prefix (sections b') (sections b') \<and> prefix (trace w2) (trace w')
       \<and> (\<forall>s\<in>set (new_sections b' b'). Name s = constants_PCRSig \<longrightarrow> \<not> Measure s)
       \<and> (\<forall>m k. GenerateSignedPCR_event m k \<in> set (new_events w2 w') \<longrightarrow>
             (\<exists>secs. prefix (sections b') secs \<and> prefix secs (sections b') \<and> m = sectionsData secs))"
    using c by (auto simp: new_sections_def)
  show ?thesis
    using measured_rel_chain [OF 1 measured_rel_chain [OF 2 3]] .
qed


lemma new_events_mono:
  assumes "prefix (trace w) (trace w1)" "prefix (trace w1) (trace w2)" "prefix (trace w2) (trace w3)"
  shows "set (new_events w1 w2) \<subseteq> set (new_events w w3)"
proof -
  have "new_events w w3 = new_events w w1 @ new_events w1 w2 @ new_events w2 w3"
    using assms by (auto simp: prefix_def new_events_def)
  then show ?thesis by auto
qed

lemma run_generators_success_engine:
  assumes "run_generators (section_generators E) b w = (Return None, b', w')"
  shows "GenerateSignedPCR_event (sectionsData (butlast (sections b'))) (PCRSigner b')
           \<in> set (new_events w w')"
proof -
  let ?first = "[generateOSRel E, generateCmdline E, generateInitrd E, generateSplash E,
      generateUname E, generateSBAT E, generatePCRPublicKey E, generateKernel E]"
  have split: "section_generators E = ?first @ [generatePCRSig E]"
    by (simp add: section_generators_def)
  from assms obtain b1 w1 where
    1: "run_generators ?first b w = (Return None, b1, w1)"
    and 2: "generatePCRSig E b1 w1 = (Return None, b', w')"
    unfolding split run_generators_append [of ?first]
    by (auto split: prod.splits outcome.splits option.splits)
  have "\<forall>g\<in>set ?first. step_advances (\<lambda>s. True) (\<lambda>e. True) g"
    using section_generators_advances [of _ E] by (simp add: section_generators_def)
  then have "step_advances (\<lambda>s. True) (\<lambda>e. True) (run_generators ?first)"
    by (rule run_generators_advances)
  then have p1: "prefix (trace w) (trace w1)"
    using 1 by (simp add: step_advances_def advances_def)
  note s = generatePCRSig_success [OF 2]
  have e: "GenerateSignedPCR_event (sectionsData (butlast (sections b'))) (PCRSigner b')
           \<in> set (new_events w1 w')"
    using s by (simp add: append_section_def)
  have "set (new_events w1 w') \<subseteq> set (new_events w w')"
    using new_events_mono [OF p1 generatePCRSig_events(2) [OF 2], of w'] by simp
  then show ?thesis using e by blast
qed

lemma Build_success_engine:
  assumes "Build E b w = (Return None, b', w')"
  shows "GenerateSignedPCR_event (sectionsData (butlast (sections b'))) (PCRSigner b')
           \<in> set (new_events w w')"
  using assms
proof (cases rule: BuildE)
  case early
  then show ?thesis using Build_setup_Inl(1) by blast
next
  case (body b0 w0 w4)
  obtain b1 w1 b2 w2 b3 w3 where
    1: "sign_sd_boot E b0 w0 = (Return None, b1, w1)"
    and 2: "generate_sections E b1 w1 = (Return None, b2, w2)"
    and 3: "assemble_UKI E b2 w2 = (Return None, b3, w3)"
    and 4: "sign_UKI E b3 w3 = (Return None, b', w4)"
    using Build_body_success [OF body(2)] by blast
  have p0: "prefix (trace w) (trace w0)" using Build_setup_Inr(5) [OF body(1)] by simp
  have a1: "advances (\<lambda>s. False) (\<lambda>e. True) b0 w0 b1 w1"
    using sign_sd_boot_advances 1 by (simp add: step_advances_def)
  have a3: "advances (\<lambda>s. False) (\<lambda>e. is_Log e \<or> e = assemble_event) b2 w2 b3 w3"
    using assemble_UKI_advances 3 by (simp add: step_advances_def)
  have a4: "advances (\<lambda>s. False) (\<lambda>e. True) b3 w3 b' w4"
    using sign_UKI_advances 4 by (simp add: step_advances_def)
  obtain w1' where l: "Logger_log b1 LevelInfo ''Generating UKI sections'' w1 = Some w1'"
    and g: "run_generators (section_generators E) b1 w1' = (Return None, b2, w2)"
    using 2 by (auto simp: generate_sections_def split: option.splits)
  have pl: "prefix (trace w1) (trace w1')"
    using l by (auto simp: Logger_log_def emit_def split: option.splits)
  have e: "GenerateSignedPCR_event (sectionsData (butlast (sections b2))) (PCRSigner b2)
           \<in> set (new_events w1' w2)"
    using run_generators_success_engine [OF g] .
  have "\<forall>g\<in>set (section_generators E). step_advances (\<lambda>s. True) (\<lambda>e. True) g"
    using section_generators_advances [of _ E] by blast
  then have "step_advances (\<lambda>s. True) (\<lambda>e. True) (run_generators (section_generators E))"
    by (rule run_generators_advances)
  then have pg: "prefix (trace w1') (trace w2)"
    using g by (simp add: step_advances_def advances_def)
  have t1: "prefix (trace w0) (trace w1)" using a1 by (simp add: advances_def)
  have t3: "prefix (trace w2) (trace w3)" using a3 by (simp add: advances_def)
  have t4: "prefix (trace w3) (trace w4)" using a4 by (simp add: advances_def)
  have t5: "prefix (trace w4) (trace w')"
    using body(3) deferred_cleanup_events(1) [of w4 E b'] by simp
  have before: "prefix (trace w) (trace w1')"
    using prefix_order.order_trans [OF prefix_order.order_trans [OF p0 t1] pl] .
  have after: "prefix (trace w2) (trace w')"
    using prefix_order.order_trans [OF prefix_order.order_trans [OF t3 t4] t5] .
  have s3: "sections b3 = sections b2" using a3 by (rule advances_False_sections)
  have s4: "sections b' = sections b3" using a4 by (rule advances_False_sections)
  have s: "sections b' = sections b2" using s3 s4 by simp
  have "PCRSigner b3 = PCRSigner b2"
    using a3 unfolding advances_def by (cases b2, cases b3) auto
  moreover have "PCRSigner b' = PCRSigner b3"
    using a4 unfolding advances_def by (cases b3, cases b') auto
  ultimately have k: "PCRSigner b' = PCRSigner b2" by simp
  show ?thesis
    using e new_events_mono [OF before pg after] s k by auto
qed

text \<open>
  Claim C4. Suppose no section named PCRSig in the builder's list is measured when
  \<^verbatim>\<open>Build\<close> is called (so for the empty list of a new builder; \<^verbatim>\<open>Build\<close> keeps it
  so, which is the second part). Then every mapping handed to the measurement engine
  during this \<^verbatim>\<open>Build\<close> is the mapping of a section list \<open>secs\<close> between the list at
  the call and the final list: its keys are exactly the names of the sections of \<open>secs\<close>
  with Measure set, every entry is the name and path of such a section, and PCRSig is
  not a key. When \<^verbatim>\<open>Build\<close> returns nil, the last section is PCRSig with Measure unset,
  and the engine was called with the mapping of the list before it.
\<close>

theorem Build_measured_sections:
  assumes inv: "\<forall>s\<in>set (sections b). Name s = constants_PCRSig \<longrightarrow> \<not> Measure s"
      and run: "Build E b w = (r, b', w')"
  shows "(\<forall>m k. GenerateSignedPCR_event m k \<in> set (new_events w w') \<longrightarrow>
            (\<exists>secs. prefix (sections b) secs \<and> prefix secs (sections b')
               \<and> m = sectionsData secs
               \<and> dom m = Name ` {s \<in> set secs. Measure s}
               \<and> (\<forall>n p. m n = Some p \<longrightarrow> (\<exists>s\<in>set secs. Measure s \<and> Name s = n \<and> Path s = p))
               \<and> m constants_PCRSig = None))
       \<and> (\<forall>s\<in>set (sections b'). Name s = constants_PCRSig \<longrightarrow> \<not> Measure s)
       \<and> (r = Return None \<longrightarrow>
            Name (last (sections b')) = constants_PCRSig \<and> \<not> Measure (last (sections b'))
            \<and> GenerateSignedPCR_event (sectionsData (butlast (sections b'))) (PCRSigner b')
                \<in> set (new_events w w'))"
proof -
  note R = Build_measured_rel [OF run]
  have p: "prefix (sections b) (sections b')" using R by simp
  have inv': "\<forall>s\<in>set (sections b'). Name s = constants_PCRSig \<longrightarrow> \<not> Measure s"
  proof -
    have "sections b' = sections b @ new_sections b b'"
      using p by (auto simp: prefix_def new_sections_def)
    then have "set (sections b') = set (sections b @ new_sections b b')" by simp
    then have "set (sections b') = set (sections b) \<union> set (new_sections b b')"
      by (simp only: set_append)
    then show ?thesis using inv R by blast
  qed
  have ev: "\<exists>secs. prefix (sections b) secs \<and> prefix secs (sections b')
               \<and> m = sectionsData secs
               \<and> dom m = Name ` {s \<in> set secs. Measure s}
               \<and> (\<forall>n p. m n = Some p \<longrightarrow> (\<exists>s\<in>set secs. Measure s \<and> Name s = n \<and> Path s = p))
               \<and> m constants_PCRSig = None"
    if e: "GenerateSignedPCR_event m k \<in> set (new_events w w')" for m k
  proof -
    obtain secs where s: "prefix (sections b) secs" "prefix secs (sections b')" "m = sectionsData secs"
      using R e by blast
    have "set secs \<subseteq> set (sections b')" using s(2) by (rule set_mono_prefix)
    then have "\<forall>s\<in>set secs. Name s = constants_PCRSig \<longrightarrow> \<not> Measure s"
      using inv' by blast
    then have n: "m constants_PCRSig = None"
      using s(3) sectionsData_None [of secs constants_PCRSig] by simp
    have d: "dom m = Name ` {s \<in> set secs. Measure s}"
      using s(3) sectionsData_dom [of secs] by simp
    have v: "\<forall>n p. m n = Some p \<longrightarrow> (\<exists>s\<in>set secs. Measure s \<and> Name s = n \<and> Path s = p)"
      using s(3) sectionsData_Some [of secs] by simp
    show ?thesis
      using s n d v by (intro exI [of _ secs] conjI)
  qed
  have su: "Name (last (sections b')) = constants_PCRSig \<and> \<not> Measure (last (sections b'))
            \<and> GenerateSignedPCR_event (sectionsData (butlast (sections b'))) (PCRSigner b')
                \<in> set (new_events w w')"
    if ok: "r = Return None"
  proof -
    have run': "Build E b w = (Return None, b', w')" using run ok by simp
    obtain mid k p where "sections b' = sections b @ mid @ [k, p]"
        "Name p = constants_PCRSig" "\<not> Measure p"
      using Build_success_sections [OF run'] by blast
    then have "Name (last (sections b')) = constants_PCRSig \<and> \<not> Measure (last (sections b'))"
      by simp
    then show ?thesis using Build_success_engine [OF run'] by simp
  qed
  show ?thesis
  proof (intro conjI allI impI)
    show "\<exists>secs. prefix (sections b) secs \<and> prefix secs (sections b')
               \<and> m = sectionsData secs
               \<and> dom m = Name ` {s \<in> set secs. Measure s}
               \<and> (\<forall>n p. m n = Some p \<longrightarrow> (\<exists>s\<in>set secs. Measure s \<and> Name s = n \<and> Path s = p))
               \<and> m constants_PCRSig = None"
      if "GenerateSignedPCR_event m k \<in> set (new_events w w')" for m k
      using ev that by blast
    show "\<forall>s\<in>set (sections b'). Name s = constants_PCRSig \<longrightarrow> \<not> Measure s" using inv' .
    show "Name (last (sections b')) = constants_PCRSig" if "r = Return None" using su that by simp
    show "\<not> Measure (last (sections b'))" if "r = Return None" using su that by simp
    show "GenerateSignedPCR_event (sectionsData (butlast (sections b'))) (PCRSigner b')
                \<in> set (new_events w w')" if "r = Return None" using su that by simp
  qed
qed

text \<open>The build of \<open>builder0\<close>: the engine gets the eight sections before PCRSig.\<close>

theorem Build_measured_sections_witness:
  "Build env_ok builder0 world0 = (Return None, builder1, world1) \<and> sections builder0 = []
   \<and> GenerateSignedPCR_event (sectionsData (butlast (sections builder1))) (Some (RSAKey 0))
       \<in> set (new_events world0 world1)
   \<and> sectionsData (butlast (sections builder1)) constants_PCRSig = None
   \<and> sectionsData (butlast (sections builder1)) constants_Linux = Some ''vmlinuz''
   \<and> Name (last (sections builder1)) = constants_PCRSig \<and> \<not> Measure (last (sections builder1))"
proof -
  have i: "\<forall>s\<in>set (sections builder0). Name s = constants_PCRSig \<longrightarrow> \<not> Measure s"
    by (simp add: builder0_def)
  note t = Build_measured_sections [OF i Build_builder0]
  have k: "PCRSigner builder1 = Some (RSAKey 0)" by (simp add: builder1_def builder0_def)
  have e: "GenerateSignedPCR_event (sectionsData (butlast (sections builder1))) (Some (RSAKey 0))
       \<in> set (new_events world0 world1)"
    using t k by simp
  have l: "Name (last (sections builder1)) = constants_PCRSig \<and> \<not> Measure (last (sections builder1))"
    using t by simp
  have a: "\<forall>m k. GenerateSignedPCR_event m k \<in> set (new_events world0 world1) \<longrightarrow>
             m constants_PCRSig = None"
    using t by blast
  have n: "sectionsData (butlast (sections builder1)) constants_PCRSig = None"
    using a [rule_format, OF e] .
  have v: "sectionsData (butlast (sections builder1)) constants_Linux = Some ''vmlinuz''"
    by (simp add: sectionsData_def xslices_ToMap_def builder1_def builder0_def)
  show ?thesis
    using Build_builder0 e n v l by (simp add: builder0_def)
qed

end
